theory Spec2Isabelle
  imports Complex_Main
begin

section \<open>scripts/optim2sqlite.py: loading minima and transition states\<close>

text \<open>
  The script reads four text files. \<^verbatim>\<open>min.data\<close> and \<^verbatim>\<open>ts.data\<close> hold one summary
  line per record, \<^verbatim>\<open>extractedmin\<close> and \<^verbatim>\<open>extractedts\<close> hold \<^verbatim>\<open>natoms\<close>
  coordinate lines per record. A file is modelled by the list of its lines, in order. The
  Python builtins \<^verbatim>\<open>float\<close> and \<^verbatim>\<open>int\<close> are parameters \<open>fl\<close> and \<open>it\<close> of the model:
  \<open>fl s = None\<close> stands for \<^verbatim>\<open>float(s)\<close> raising \<^verbatim>\<open>ValueError\<close>, and \<open>'f\<close> is the type
  of the floating-point values it returns. Every theorem holds for all \<open>fl\<close> and \<open>it\<close>.
  The \<^verbatim>\<open>print\<close> statements and the timing are left out.
\<close>

subsection \<open>Exceptions\<close>

text \<open>
  Every exception the script can raise, with the place that raises it:
  \<^item> \<open>ValueError_float s\<close>: \<^verbatim>\<open>float(s)\<close> on a string that is no number;
  \<^item> \<open>ValueError_int s\<close>: \<^verbatim>\<open>int(s)\<close> on a string that is no integer;
  \<^item> \<open>ValueError_broadcast k m\<close>: numpy's slice assignment of \<open>k\<close> values to a slice of
    length \<open>m\<close> ("could not broadcast input array from shape (k) into shape (m)");
  \<^item> \<open>ValueError_unpack k m\<close>: tuple unpacking of \<open>k\<close> values into \<open>m\<close> names;
  \<^item> \<open>KeyError k\<close>: \<^verbatim>\<open>minima[k]\<close> for a key that is not in the dict. \<^verbatim>\<open>KeyError\<close> is a
    subclass of Python's \<^verbatim>\<open>LookupError\<close>.

  The script defines no exception class of its own and never tests for the end of a file.
  Of the error kinds the specification names, ParseError is a \<^verbatim>\<open>ValueError\<close> here and
  LookupError is the \<^verbatim>\<open>KeyError\<close>. Nothing in the script corresponds to a separate
  StreamExhausted: when a coordinate file ends, \<^verbatim>\<open>readline\<close> returns the empty string
  and the slice assignment raises \<open>ValueError_broadcast 0 3\<close>, as it does for a blank line
  in the middle of the file.
\<close>

datatype error =
    ValueError_float string
  | ValueError_int string
  | ValueError_broadcast nat nat
  | ValueError_unpack nat nat
  | KeyError int

fun is_ValueError :: "error \<Rightarrow> bool" where
  "is_ValueError (KeyError k) = False"
| "is_ValueError e = True"

fun is_LookupError :: "error \<Rightarrow> bool" where
  "is_LookupError (KeyError k) = True"
| "is_LookupError e = False"

subsection \<open>\<^verbatim>\<open>str.split()\<close> and \<^verbatim>\<open>file.readline()\<close>\<close>

text \<open>
  \<^verbatim>\<open>s.split()\<close> with no argument cuts a byte string at runs of whitespace (space, tab,
  newline, vertical tab, form feed, carriage return) and returns the non-empty pieces.
\<close>

definition is_space :: "char \<Rightarrow> bool" where
  "is_space c \<longleftrightarrow>
     c = CHR '' '' \<or> c = CHR 0x09 \<or> c = CHR 0x0A \<or> c = CHR 0x0B \<or> c = CHR 0x0C \<or> c = CHR 0x0D"

text \<open>\<open>split_from w s\<close>: the pieces of \<open>s\<close>, where \<open>w\<close> is the piece being read, reversed.\<close>

fun split_from :: "string \<Rightarrow> string \<Rightarrow> string list" where
  "split_from w [] = (if w = [] then [] else [rev w])"
| "split_from w (c # cs) =
     (if is_space c then (if w = [] then split_from [] cs else rev w # split_from [] cs)
      else split_from (c # w) cs)"

definition split :: "string \<Rightarrow> string list" where
  "split s = split_from [] s"

text \<open>
  A file object is the list of the lines it has not read yet. \<^verbatim>\<open>readline()\<close> returns the
  next line and advances; at the end of the file it returns the empty string.
\<close>

definition readline :: "string list \<Rightarrow> string \<times> string list" where
  "readline file = (case file of [] \<Rightarrow> ([], []) | l # ls \<Rightarrow> (l, ls))"

subsection \<open>\<^verbatim>\<open>read_coords\<close>\<close>

text \<open>\<^verbatim>\<open>[float(y) for y in x]\<close>: the conversions run left to right, the first failure raises.\<close>

fun floats :: "(string \<Rightarrow> 'f option) \<Rightarrow> string list \<Rightarrow> error + 'f list" where
  "floats fl [] = Inr []"
| "floats fl (y # ys) =
     (case fl y of
        None \<Rightarrow> Inl (ValueError_float y)
      | Some v \<Rightarrow> (case floats fl ys of Inl e \<Rightarrow> Inl e | Inr vs \<Rightarrow> Inr (v # vs)))"

text \<open>
  \<^verbatim>\<open>coords[i*3:i*3+3] = vals\<close> on a one-dimensional numpy array. The slice has
  \<open>m = min 3 (length coords - 3 * i)\<close> cells. numpy broadcasts the right-hand side to the
  slice: \<open>m\<close> values are stored one by one, a single value is stored in every cell, and any
  other number of values raises \<^verbatim>\<open>ValueError\<close>.
\<close>

definition set_slice :: "'f list \<Rightarrow> nat \<Rightarrow> 'f list \<Rightarrow> error + 'f list" where
  "set_slice coords i vals =
     (let m = min 3 (length coords - 3 * i) in
      if length vals = m then Inr (take (3 * i) coords @ vals @ drop (3 * i + m) coords)
      else if length vals = 1
        then Inr (take (3 * i) coords @ replicate m (hd vals) @ drop (3 * i + m) coords)
      else Inl (ValueError_broadcast (length vals) m))"

text \<open>
  The loop \<^verbatim>\<open>for i in xrange(natoms)\<close> of \<^verbatim>\<open>read_coords\<close>, from index \<open>i\<close> with \<open>k\<close>
  iterations left.
\<close>

fun read_coords_loop ::
  "(string \<Rightarrow> 'f option) \<Rightarrow> nat \<Rightarrow> nat \<Rightarrow> string list \<Rightarrow> 'f list \<Rightarrow> error + ('f list \<times> string list)"
where
  "read_coords_loop fl i 0 file coords = Inr (coords, file)"
| "read_coords_loop fl i (Suc k) file coords =
     (case readline file of (l, file') \<Rightarrow>
        (case floats fl (split l) of
           Inl e \<Rightarrow> Inl e
         | Inr vals \<Rightarrow>
             (case set_slice coords i vals of
                Inl e \<Rightarrow> Inl e
              | Inr coords' \<Rightarrow> read_coords_loop fl (Suc i) k file' coords')))"

text \<open>
  \<^verbatim>\<open>read_coords(file)\<close> for \<open>n\<close> atoms: a fresh array \<^verbatim>\<open>np.zeros(3*natoms)\<close>, filled
  by the loop. It returns the array and the file as it has been advanced.
\<close>

definition read_coords ::
  "(string \<Rightarrow> 'f::zero option) \<Rightarrow> nat \<Rightarrow> string list \<Rightarrow> error + ('f list \<times> string list)"
where
  "read_coords fl n file = read_coords_loop fl 0 n file (replicate (3 * n) 0)"

definition natoms :: nat where
  "natoms = 38"

subsection \<open>The records and the database session\<close>

text \<open>
  A reference to a Minimum object is the number of Minimum objects constructed before it,
  so that two objects with equal fields are still two objects.
\<close>

type_synonym ref = nat

text \<open>
  Modelled from the spec: the classes \<^verbatim>\<open>Minimum\<close> and \<^verbatim>\<open>TransitionState\<close> of
  \<^verbatim>\<open>pygmin.storage.database\<close> are not among the sources. The spec gives a Minimum an
  energy and a coordinate vector, and a TransitionState an energy, a coordinate vector and
  two references to Minimum records; their construction validates nothing.
\<close>

record 'f Minimum =
  m_energy :: 'f
  m_coords :: "'f list"

record 'f TransitionState =
  ts_energy :: 'f
  ts_coords :: "'f list"
  ts_min1 :: ref
  ts_min2 :: ref

text \<open>
  What the script does to \<^verbatim>\<open>db.session\<close>, call by call: \<^verbatim>\<open>add\<close> of a Minimum object
  (by reference), \<^verbatim>\<open>add\<close> of a TransitionState object, and \<^verbatim>\<open>commit\<close>.
\<close>

datatype 'f call =
    Add_Minimum ref
  | Add_TransitionState "'f TransitionState"
  | Commit

text \<open>
  The state of the script: the Minimum objects constructed so far (\<open>objects s ! r\<close> is the
  object with reference \<open>r\<close>), the dict \<^verbatim>\<open>minima\<close>, the counter \<^verbatim>\<open>mini\<close>, and the calls
  made on \<^verbatim>\<open>db.session\<close>, oldest first.
\<close>

record 'f state =
  objects :: "'f Minimum list"
  minima :: "int \<rightharpoonup> ref"
  mini :: int
  session :: "'f call list"

definition init :: "'f state" where
  "init = \<lparr>objects = [], minima = Map.empty, mini = 1, session = []\<rparr>"

definition commit :: "'f state \<Rightarrow> 'f state" where
  "commit s = s\<lparr>session := session s @ [Commit]\<rparr>"

text \<open>The Minimum references and the TransitionStates added to the session, in order.\<close>

fun added_minima :: "'f call list \<Rightarrow> ref list" where
  "added_minima [] = []"
| "added_minima (Add_Minimum r # cs) = r # added_minima cs"
| "added_minima (c # cs) = added_minima cs"

fun added_ts :: "'f call list \<Rightarrow> 'f TransitionState list" where
  "added_ts [] = []"
| "added_ts (Add_TransitionState t # cs) = t # added_ts cs"
| "added_ts (c # cs) = added_ts cs"

fun commits :: "'f call list \<Rightarrow> nat" where
  "commits [] = 0"
| "commits (Commit # cs) = Suc (commits cs)"
| "commits (c # cs) = commits cs"

subsection \<open>Phase 1: the minima (lines 31 to 37)\<close>

text \<open>
  \<^verbatim>\<open>energy, frequency, pgorder, itx, ity, itz = line.split()\<close> and
  \<^verbatim>\<open>Minimum(float(energy), coords)\<close>: the unpacking needs six fields, and only
  \<^verbatim>\<open>energy\<close> is converted.
\<close>

fun make_minimum :: "(string \<Rightarrow> 'f option) \<Rightarrow> 'f list \<Rightarrow> string list \<Rightarrow> error + 'f Minimum" where
  "make_minimum fl coords [energy, frequency, pgorder, itx, ity, itz] =
     (case fl energy of
        None \<Rightarrow> Inl (ValueError_float energy)
      | Some e \<Rightarrow> Inr \<lparr>m_energy = e, m_coords = coords\<rparr>)"
| "make_minimum fl coords toks = Inl (ValueError_unpack (length toks) 6)"

text \<open>
  One iteration of the loop over \<^verbatim>\<open>min.data\<close>: read the coordinates, split the line,
  build the Minimum, add it to the session, enter it in \<^verbatim>\<open>minima\<close> under \<^verbatim>\<open>mini\<close> and
  count. It returns the new state and the coordinate file as advanced.
\<close>

definition minimum_step ::
  "(string \<Rightarrow> 'f::zero option) \<Rightarrow> nat \<Rightarrow> string \<Rightarrow> string list \<Rightarrow> 'f state
     \<Rightarrow> error + ('f state \<times> string list)"
where
  "minimum_step fl n line fcoords s =
     (case read_coords fl n fcoords of
        Inl e \<Rightarrow> Inl e
      | Inr (coords, fcoords') \<Rightarrow>
          (case make_minimum fl coords (split line) of
             Inl e \<Rightarrow> Inl e
           | Inr min1 \<Rightarrow>
               Inr (\<lparr>objects = objects s @ [min1],
                     minima = (minima s)(mini s \<mapsto> length (objects s)),
                     mini = mini s + 1,
                     session = session s @ [Add_Minimum (length (objects s))]\<rparr>,
                    fcoords')))"

text \<open>
  The loop \<^verbatim>\<open>for line in open("min.data")\<close>. An exception ends the run; the result then
  holds the exception and the state reached before the failing line.
\<close>

fun read_minima ::
  "(string \<Rightarrow> 'f::zero option) \<Rightarrow> nat \<Rightarrow> string list \<Rightarrow> string list \<Rightarrow> 'f state
     \<Rightarrow> (error \<times> 'f state) + 'f state"
where
  "read_minima fl n [] fcoords s = Inr s"
| "read_minima fl n (line # rest) fcoords s =
     (case minimum_step fl n line fcoords s of
        Inl e \<Rightarrow> Inl (e, s)
      | Inr (s', fcoords') \<Rightarrow> read_minima fl n rest fcoords' s')"

subsection \<open>Phase 2: the transition states (lines 48 to 53)\<close>

text \<open>
  \<^verbatim>\<open>energy, frequency, pgorder, min1, min2, itx, ity, itz = line.split()\<close> and
  \<^verbatim>\<open>TransitionState(float(energy), coords, minima[int(min1)], minima[int(min2)])\<close>.
  Python evaluates the arguments left to right: \<^verbatim>\<open>float(energy)\<close>, then \<^verbatim>\<open>int(min1)\<close>
  and its lookup, then \<^verbatim>\<open>int(min2)\<close> and its lookup.
\<close>

definition build_ts ::
  "(string \<Rightarrow> 'f option) \<Rightarrow> (string \<Rightarrow> int option) \<Rightarrow> (int \<rightharpoonup> ref) \<Rightarrow> 'f list
     \<Rightarrow> string \<Rightarrow> string \<Rightarrow> string \<Rightarrow> error + 'f TransitionState"
where
  "build_ts fl it index coords energy min1 min2 =
     (case fl energy of
        None \<Rightarrow> Inl (ValueError_float energy)
      | Some e \<Rightarrow>
     (case it min1 of
        None \<Rightarrow> Inl (ValueError_int min1)
      | Some k1 \<Rightarrow>
     (case index k1 of
        None \<Rightarrow> Inl (KeyError k1)
      | Some r1 \<Rightarrow>
     (case it min2 of
        None \<Rightarrow> Inl (ValueError_int min2)
      | Some k2 \<Rightarrow>
     (case index k2 of
        None \<Rightarrow> Inl (KeyError k2)
      | Some r2 \<Rightarrow>
          Inr \<lparr>ts_energy = e, ts_coords = coords, ts_min1 = r1, ts_min2 = r2\<rparr>)))))"

fun make_ts ::
  "(string \<Rightarrow> 'f option) \<Rightarrow> (string \<Rightarrow> int option) \<Rightarrow> (int \<rightharpoonup> ref) \<Rightarrow> 'f list
     \<Rightarrow> string list \<Rightarrow> error + 'f TransitionState"
where
  "make_ts fl it index coords [energy, frequency, pgorder, min1, min2, itx, ity, itz] =
     build_ts fl it index coords energy min1 min2"
| "make_ts fl it index coords toks = Inl (ValueError_unpack (length toks) 8)"

definition ts_step ::
  "(string \<Rightarrow> 'f::zero option) \<Rightarrow> (string \<Rightarrow> int option) \<Rightarrow> nat \<Rightarrow> string \<Rightarrow> string list
     \<Rightarrow> 'f state \<Rightarrow> error + ('f state \<times> string list)"
where
  "ts_step fl it n line fcoords s =
     (case read_coords fl n fcoords of
        Inl e \<Rightarrow> Inl e
      | Inr (coords, fcoords') \<Rightarrow>
          (case make_ts fl it (minima s) coords (split line) of
             Inl e \<Rightarrow> Inl e
           | Inr ts \<Rightarrow> Inr (s\<lparr>session := session s @ [Add_TransitionState ts]\<rparr>, fcoords')))"

fun read_ts ::
  "(string \<Rightarrow> 'f::zero option) \<Rightarrow> (string \<Rightarrow> int option) \<Rightarrow> nat \<Rightarrow> string list \<Rightarrow> string list
     \<Rightarrow> 'f state \<Rightarrow> (error \<times> 'f state) + 'f state"
where
  "read_ts fl it n [] fcoords s = Inr s"
| "read_ts fl it n (line # rest) fcoords s =
     (case ts_step fl it n line fcoords s of
        Inl e \<Rightarrow> Inl (e, s)
      | Inr (s', fcoords') \<Rightarrow> read_ts fl it n rest fcoords' s')"

subsection \<open>The script\<close>

text \<open>
  The whole run for \<open>n\<close> atoms, on the lines of \<^verbatim>\<open>min.data\<close>, \<^verbatim>\<open>extractedmin\<close>,
  \<^verbatim>\<open>ts.data\<close> and \<^verbatim>\<open>extractedts\<close>: phase 1, commit, phase 2, commit. The script itself
  is the run with \<open>n = natoms\<close>.
\<close>

definition run ::
  "(string \<Rightarrow> 'f::zero option) \<Rightarrow> (string \<Rightarrow> int option) \<Rightarrow> nat
     \<Rightarrow> string list \<Rightarrow> string list \<Rightarrow> string list \<Rightarrow> string list
     \<Rightarrow> (error \<times> 'f state) + 'f state"
where
  "run fl it n min_data extractedmin ts_data extractedts =
     (case read_minima fl n min_data extractedmin init of
        Inl x \<Rightarrow> Inl x
      | Inr s1 \<Rightarrow>
          (case read_ts fl it n ts_data extractedts (commit s1) of
             Inl x \<Rightarrow> Inl x
           | Inr s2 \<Rightarrow> Inr (commit s2)))"

definition optim2sqlite ::
  "(string \<Rightarrow> 'f::zero option) \<Rightarrow> (string \<Rightarrow> int option)
     \<Rightarrow> string list \<Rightarrow> string list \<Rightarrow> string list \<Rightarrow> string list
     \<Rightarrow> (error \<times> 'f state) + 'f state"
where
  "optim2sqlite fl it = run fl it natoms"

text \<open>
  The state a run ends in, whether it completed or stopped at an exception, and the
  exception it stopped at, if any.
\<close>

definition state_of :: "(error \<times> 'f state) + 'f state \<Rightarrow> 'f state" where
  "state_of r = (case r of Inl (e, s) \<Rightarrow> s | Inr s \<Rightarrow> s)"

definition error_of :: "(error \<times> 'f state) + 'f state \<Rightarrow> error option" where
  "error_of r = (case r of Inl (e, s) \<Rightarrow> Some e | Inr s \<Rightarrow> None)"

subsection \<open>Well-formed input\<close>

text \<open>
  A coordinate line that \<^verbatim>\<open>read_coords\<close> accepts has three tokens or one token, all
  numeric; \<open>atom_coords\<close> is what it stores for such a line. A line of the documented
  format (\<open>triple_ok\<close>) has three numeric tokens, and \<open>block fl n fc i\<close> is the coordinate
  vector that the \<open>i\<close>-th block of \<open>n\<close> such lines gives (\<open>i\<close> counted from 0).
\<close>

definition line_ok :: "(string \<Rightarrow> 'f option) \<Rightarrow> string \<Rightarrow> bool" where
  "line_ok fl l \<longleftrightarrow>
     (length (split l) = 3 \<or> length (split l) = 1) \<and> (\<forall>t \<in> set (split l). fl t \<noteq> None)"

definition atom_coords :: "(string \<Rightarrow> 'f option) \<Rightarrow> string \<Rightarrow> 'f list" where
  "atom_coords fl l =
     (let vs = map (\<lambda>t. the (fl t)) (split l) in if length vs = 1 then replicate 3 (hd vs) else vs)"

definition triple_ok :: "(string \<Rightarrow> 'f option) \<Rightarrow> string \<Rightarrow> bool" where
  "triple_ok fl l \<longleftrightarrow> length (split l) = 3 \<and> (\<forall>t \<in> set (split l). fl t \<noteq> None)"

definition coords_ok :: "(string \<Rightarrow> 'f option) \<Rightarrow> nat \<Rightarrow> nat \<Rightarrow> string list \<Rightarrow> bool" where
  "coords_ok fl n m fc \<longleftrightarrow> n * m \<le> length fc \<and> (\<forall>l \<in> set (take (n * m) fc). triple_ok fl l)"

definition block :: "(string \<Rightarrow> 'f option) \<Rightarrow> nat \<Rightarrow> string list \<Rightarrow> nat \<Rightarrow> 'f list" where
  "block fl n fc i = concat (map (\<lambda>l. map (\<lambda>t. the (fl t)) (split l)) (take n (drop (n * i) fc)))"

text \<open>
  A line of \<^verbatim>\<open>min.data\<close> that the script accepts: six fields, the first numeric. A line
  of \<^verbatim>\<open>ts.data\<close> that it accepts when \<open>N\<close> minima are loaded: eight fields, the first
  numeric, the fourth and fifth integers from 1 to \<open>N\<close>.
\<close>

definition min_line_ok :: "(string \<Rightarrow> 'f option) \<Rightarrow> string \<Rightarrow> bool" where
  "min_line_ok fl line \<longleftrightarrow> length (split line) = 6 \<and> fl (split line ! 0) \<noteq> None"

definition ordinal_ok :: "(string \<Rightarrow> int option) \<Rightarrow> nat \<Rightarrow> string \<Rightarrow> bool" where
  "ordinal_ok it N tok \<longleftrightarrow> (case it tok of None \<Rightarrow> False | Some k \<Rightarrow> 1 \<le> k \<and> k \<le> int N)"

definition ts_line_ok :: "(string \<Rightarrow> 'f option) \<Rightarrow> (string \<Rightarrow> int option) \<Rightarrow> nat \<Rightarrow> string \<Rightarrow> bool" where
  "ts_line_ok fl it N line \<longleftrightarrow>
     length (split line) = 8 \<and> fl (split line ! 0) \<noteq> None \<and>
     ordinal_ok it N (split line ! 3) \<and> ordinal_ok it N (split line ! 4)"

definition valid_minima :: "(string \<Rightarrow> 'f option) \<Rightarrow> nat \<Rightarrow> string list \<Rightarrow> string list \<Rightarrow> bool" where
  "valid_minima fl n min_data extractedmin \<longleftrightarrow>
     (\<forall>l \<in> set min_data. min_line_ok fl l) \<and> coords_ok fl n (length min_data) extractedmin"

definition valid_ts ::
  "(string \<Rightarrow> 'f option) \<Rightarrow> (string \<Rightarrow> int option) \<Rightarrow> nat \<Rightarrow> nat \<Rightarrow> string list \<Rightarrow> string list \<Rightarrow> bool"
where
  "valid_ts fl it n N ts_data extractedts \<longleftrightarrow>
     (\<forall>l \<in> set ts_data. ts_line_ok fl it N l) \<and> coords_ok fl n (length ts_data) extractedts"

text \<open>
  The invariant of the dict and the counter: the keys are 1 up to the number of Minimum
  objects, and key \<open>k\<close> holds the reference of the \<open>k\<close>-th object.
\<close>

definition loaded :: "'f state \<Rightarrow> bool" where
  "loaded s \<longleftrightarrow>
     mini s = 1 + int (length (objects s)) \<and>
     (\<forall>k. minima s k = (if 1 \<le> k \<and> k < mini s then Some (nat (k - 1)) else None))"

subsection \<open>Decimal readers for concrete runs\<close>

text \<open>
  To run the model on concrete files, \<open>fl\<close> and \<open>it\<close> are instantiated with readers of
  plain decimal literals: \<open>int_dec\<close> reads an optional minus sign and digits, \<open>float_dec\<close>
  reads an optional minus sign, digits and an optional fraction, as an exact rational.
  Python's \<^verbatim>\<open>int\<close> and \<^verbatim>\<open>float\<close> accept these literals too (and more).
\<close>

definition digit_of :: "char \<Rightarrow> nat option" where
  "digit_of c = (let k = (of_char c :: nat) in if 48 \<le> k \<and> k \<le> 57 then Some (k - 48) else None)"

fun digits_from :: "nat \<Rightarrow> string \<Rightarrow> nat option" where
  "digits_from a [] = Some a"
| "digits_from a (c # cs) =
     (case digit_of c of None \<Rightarrow> None | Some d \<Rightarrow> digits_from (10 * a + d) cs)"

definition nat_dec :: "string \<Rightarrow> nat option" where
  "nat_dec s = (if s = [] then None else digits_from 0 s)"

definition int_dec :: "string \<Rightarrow> int option" where
  "int_dec s =
     (case s of
        [] \<Rightarrow> None
      | c # cs \<Rightarrow>
          if c = CHR ''-'' then map_option (\<lambda>k. - int k) (nat_dec cs)
          else map_option int (nat_dec s))"

definition ufloat_dec :: "string \<Rightarrow> rat option" where
  "ufloat_dec u =
     (case dropWhile (\<lambda>c. c \<noteq> CHR ''.'') u of
        [] \<Rightarrow> map_option of_nat (nat_dec u)
      | dot # fp \<Rightarrow>
          (case (nat_dec (takeWhile (\<lambda>c. c \<noteq> CHR ''.'') u), nat_dec fp) of
             (Some a, Some b) \<Rightarrow> Some (of_nat a + of_nat b / 10 ^ length fp)
           | _ \<Rightarrow> None))"

definition float_dec :: "string \<Rightarrow> rat option" where
  "float_dec s =
     (case s of
        [] \<Rightarrow> None
      | c # cs \<Rightarrow> if c = CHR ''-'' then map_option uminus (ufloat_dec cs) else ufloat_dec s)"

lemmas dec_defs = digit_of_def nat_dec_def int_dec_def ufloat_dec_def float_dec_def

lemmas eval_defs =
  run_def init_def commit_def minimum_step_def ts_step_def build_ts_def read_coords_def
  readline_def split_def is_space_def set_slice_def

section \<open>The coordinate reader\<close>

text \<open>
  What \<^verbatim>\<open>read_coords\<close> returns on lines it accepts, what its returning says about the
  lines it has read, and what it raises when the file ends inside a block.
\<close>

lemma split_Nil: "split [] = []"
  by (simp add: split_def)

lemma floats_ok: "\<forall>t \<in> set ts. fl t \<noteq> None \<Longrightarrow> floats fl ts = Inr (map (\<lambda>t. the (fl t)) ts)"
  by (induction ts) auto

lemma floats_Inr: "floats fl ts = Inr vs \<Longrightarrow> (\<forall>t \<in> set ts. fl t \<noteq> None) \<and> length vs = length ts"
  by (induction ts arbitrary: vs) (auto split: option.splits sum.splits)

lemma floats_Inl: "floats fl ts = Inl e \<Longrightarrow> is_ValueError e"
  by (induction ts) (auto split: option.splits sum.splits)

lemma set_slice_Inl: "set_slice coords i vals = Inl e \<Longrightarrow> is_ValueError e"
  by (auto simp: set_slice_def Let_def split: if_splits)

lemma set_slice_3:
  "3 * i + 3 \<le> length coords \<Longrightarrow> length vals = 3 \<Longrightarrow>
   set_slice coords i vals = Inr (take (3 * i) coords @ vals @ drop (3 * i + 3) coords)"
  by (simp add: set_slice_def Let_def min_def)

lemma set_slice_1:
  "3 * i + 3 \<le> length coords \<Longrightarrow> length vals = 1 \<Longrightarrow>
   set_slice coords i vals = Inr (take (3 * i) coords @ replicate 3 (hd vals) @ drop (3 * i + 3) coords)"
  by (simp add: set_slice_def Let_def min_def)

lemma set_slice_bad:
  "3 * i + 3 \<le> length coords \<Longrightarrow> length vals \<noteq> 3 \<Longrightarrow> length vals \<noteq> 1 \<Longrightarrow>
   set_slice coords i vals = Inl (ValueError_broadcast (length vals) 3)"
  by (simp add: set_slice_def Let_def min_def)

lemma set_slice_line:
  "3 * i + 3 \<le> length coords \<Longrightarrow> line_ok fl l \<Longrightarrow>
   set_slice coords i (map (\<lambda>t. the (fl t)) (split l))
     = Inr (take (3 * i) coords @ atom_coords fl l @ drop (3 * i + 3) coords)"
  by (auto simp: line_ok_def atom_coords_def Let_def set_slice_3 set_slice_1)

lemma length_atom_coords: "line_ok fl l \<Longrightarrow> length (atom_coords fl l) = 3"
  by (auto simp: line_ok_def atom_coords_def Let_def)

lemma loop_ok:
  "length coords = 3 * (i + k) \<Longrightarrow> k \<le> length fc \<Longrightarrow> \<forall>l \<in> set (take k fc). line_ok fl l \<Longrightarrow>
   read_coords_loop fl i k fc coords
     = Inr (take (3 * i) coords @ concat (map (atom_coords fl) (take k fc)) @ drop (3 * (i + k)) coords,
            drop k fc)"
proof (induction k arbitrary: i fc coords)
  case 0
  then show ?case by simp
next
  case (Suc k)
  from Suc.prems obtain l ls where fc: "fc = l # ls"
    by (cases fc) auto
  from Suc.prems fc have l: "line_ok fl l" and ls: "\<forall>l \<in> set (take k ls). line_ok fl l"
    and k: "k \<le> length ls"
    by auto
  have fl: "floats fl (split l) = Inr (map (\<lambda>t. the (fl t)) (split l))"
    using l by (simp add: floats_ok line_ok_def)
  define c' where "c' = take (3 * i) coords @ atom_coords fl l @ drop (3 * i + 3) coords"
  have sl: "set_slice coords i (map (\<lambda>t. the (fl t)) (split l)) = Inr c'"
    unfolding c'_def using Suc.prems(1) l by (intro set_slice_line) auto
  have len: "length c' = 3 * (Suc i + k)"
    using Suc.prems(1) l by (simp add: c'_def length_atom_coords)
  have tk: "take (3 * Suc i) c' = take (3 * i) coords @ atom_coords fl l"
    using Suc.prems(1) l by (simp add: c'_def length_atom_coords)
  have dr: "drop (3 * (Suc i + k)) c' = drop (3 * (i + Suc k)) coords"
    using Suc.prems(1) len by simp
  have "read_coords_loop fl (Suc i) k ls c'
      = Inr ((take (3 * i) coords @ atom_coords fl l) @ concat (map (atom_coords fl) (take k ls))
               @ drop (3 * (i + Suc k)) coords, drop k ls)"
    using Suc.IH [OF len k ls] unfolding tk dr .
  then show ?case
    using fl sl by (simp add: fc readline_def)
qed

lemma loop_Inr:
  "read_coords_loop fl i k fc coords = Inr (c, rest) \<Longrightarrow> length coords = 3 * (i + k) \<Longrightarrow>
   k \<le> length fc \<and> (\<forall>l \<in> set (take k fc). line_ok fl l) \<and> length c = length coords
     \<and> rest = drop k fc"
proof (induction k arbitrary: i fc coords)
  case 0
  then show ?case by simp
next
  case (Suc k)
  obtain l fc' where rl: "readline fc = (l, fc')"
    by (cases "readline fc")
  from Suc.prems(1) rl obtain vals coords' where
    fl: "floats fl (split l) = Inr vals" and sl: "set_slice coords i vals = Inr coords'"
    and rec: "read_coords_loop fl (Suc i) k fc' coords' = Inr (c, rest)"
    by (auto split: sum.splits)
  have m: "3 * i + 3 \<le> length coords"
    using Suc.prems(2) by simp
  have lv: "length vals = 3 \<or> length vals = 1"
    using sl set_slice_bad [OF m, of vals] by auto
  have len': "length coords' = length coords"
    using sl lv m by (auto simp: set_slice_3 set_slice_1)
  have ne: "fc \<noteq> []"
  proof
    assume "fc = []"
    with rl have "l = []" by (simp add: readline_def)
    with fl have "vals = []" by (simp add: split_Nil)
    with lv show False by simp
  qed
  then obtain ls where fc: "fc = l # ls" and fc': "fc' = ls"
    using rl by (cases fc) (auto simp: readline_def)
  have lok: "line_ok fl l"
    using floats_Inr [OF fl] lv by (auto simp: line_ok_def)
  from Suc.IH [OF rec] len' Suc.prems(2)
  have "k \<le> length fc' \<and> (\<forall>l \<in> set (take k fc'). line_ok fl l) \<and> length c = length coords'
     \<and> rest = drop k fc'"
    by simp
  then show ?case
    using lok len' by (simp add: fc fc')
qed

lemma loop_Inl:
  "read_coords_loop fl i k fc coords = Inl e \<Longrightarrow> is_ValueError e"
  by (induction k arbitrary: i fc coords)
     (auto split: sum.splits prod.splits dest: floats_Inl set_slice_Inl)

lemma loop_eof:
  "length coords = 3 * (i + k) \<Longrightarrow> length fc < k \<Longrightarrow> \<forall>l \<in> set fc. line_ok fl l \<Longrightarrow>
   read_coords_loop fl i k fc coords = Inl (ValueError_broadcast 0 3)"
proof (induction k arbitrary: i fc coords)
  case 0
  then show ?case by simp
next
  case (Suc k)
  have m: "3 * i + 3 \<le> length coords"
    using Suc.prems(1) by simp
  show ?case
  proof (cases fc)
    case Nil
    then show ?thesis
      using set_slice_bad [OF m, of "[]"] by (simp add: readline_def split_Nil)
  next
    case (Cons l ls)
    with Suc.prems have l: "line_ok fl l" and ls: "\<forall>l \<in> set ls. line_ok fl l" and k: "length ls < k"
      by auto
    have fl: "floats fl (split l) = Inr (map (\<lambda>t. the (fl t)) (split l))"
      using l by (simp add: floats_ok line_ok_def)
    define c' where "c' = take (3 * i) coords @ atom_coords fl l @ drop (3 * i + 3) coords"
    have sl: "set_slice coords i (map (\<lambda>t. the (fl t)) (split l)) = Inr c'"
      unfolding c'_def using m l by (intro set_slice_line) auto
    have len: "length c' = 3 * (Suc i + k)"
      using Suc.prems(1) l by (simp add: c'_def length_atom_coords)
    show ?thesis
      using Suc.IH [OF len k ls] fl sl by (simp add: Cons readline_def)
  qed
qed

lemma read_coords_ok:
  "n \<le> length fc \<Longrightarrow> \<forall>l \<in> set (take n fc). line_ok fl l \<Longrightarrow>
   read_coords fl n fc = Inr (concat (map (atom_coords fl) (take n fc)), drop n fc)"
  using loop_ok [of "replicate (3 * n) 0" 0 n fc fl] by (simp add: read_coords_def)

lemma read_coords_Inr:
  "read_coords fl n fc = Inr (c, rest) \<Longrightarrow>
   n \<le> length fc \<and> (\<forall>l \<in> set (take n fc). line_ok fl l) \<and> length c = 3 * n \<and> rest = drop n fc"
  using loop_Inr [of fl 0 n fc "replicate (3 * n) 0" c rest] by (simp add: read_coords_def)

lemma read_coords_Inl: "read_coords fl n fc = Inl e \<Longrightarrow> is_ValueError e"
  by (auto simp: read_coords_def dest: loop_Inl)

lemma read_coords_eof:
  "length fc < n \<Longrightarrow> \<forall>l \<in> set fc. line_ok fl l \<Longrightarrow>
   read_coords fl n fc = Inl (ValueError_broadcast 0 3)"
  using loop_eof [of "replicate (3 * n) 0" 0 n fc fl] by (simp add: read_coords_def)

lemma loop_blank:
  "length coords = 3 * (i + k) \<Longrightarrow> length pre < k \<Longrightarrow> \<forall>l \<in> set pre. line_ok fl l \<Longrightarrow>
   split b = [] \<Longrightarrow>
   read_coords_loop fl i k (pre @ b # rest) coords = Inl (ValueError_broadcast 0 3)"
proof (induction k arbitrary: i pre coords)
  case 0
  then show ?case by simp
next
  case (Suc k)
  have m: "3 * i + 3 \<le> length coords"
    using Suc.prems(1) by simp
  show ?case
  proof (cases pre)
    case Nil
    then show ?thesis
      using set_slice_bad [OF m, of "[]"] Suc.prems(4) by (simp add: readline_def)
  next
    case (Cons l ls)
    with Suc.prems have l: "line_ok fl l" and ls: "\<forall>l \<in> set ls. line_ok fl l" and k: "length ls < k"
      by auto
    have fl: "floats fl (split l) = Inr (map (\<lambda>t. the (fl t)) (split l))"
      using l by (simp add: floats_ok line_ok_def)
    define c' where "c' = take (3 * i) coords @ atom_coords fl l @ drop (3 * i + 3) coords"
    have sl: "set_slice coords i (map (\<lambda>t. the (fl t)) (split l)) = Inr c'"
      unfolding c'_def using m l by (intro set_slice_line) auto
    have len: "length c' = 3 * (Suc i + k)"
      using Suc.prems(1) l by (simp add: c'_def length_atom_coords)
    show ?thesis
      using Suc.IH [OF len k ls Suc.prems(4)] fl sl by (simp add: Cons readline_def)
  qed
qed

lemma read_coords_blank:
  "length pre < n \<Longrightarrow> \<forall>l \<in> set pre. line_ok fl l \<Longrightarrow> split b = [] \<Longrightarrow>
   read_coords fl n (pre @ b # rest) = Inl (ValueError_broadcast 0 3)"
  using loop_blank [of "replicate (3 * n) 0" 0 n pre fl b rest] by (simp add: read_coords_def)

section \<open>Phase 1\<close>

text \<open>
  The loop over \<^verbatim>\<open>min.data\<close>: one iteration on a well-formed line, the invariant
  \<open>loaded\<close>, the loop on a list of lines cut in two, and the state it reaches when it
  completes, when it stops, and when the coordinate file is too short.
\<close>

lemma make_minimum_eq:
  "make_minimum fl coords toks =
     (if length toks = 6
      then (case fl (toks ! 0) of
              None \<Rightarrow> Inl (ValueError_float (toks ! 0))
            | Some e \<Rightarrow> Inr \<lparr>m_energy = e, m_coords = coords\<rparr>)
      else Inl (ValueError_unpack (length toks) 6))"
  by (induction fl coords toks rule: make_minimum.induct) (simp_all split: option.splits)

lemma make_ts_eq:
  "make_ts fl it index coords toks =
     (if length toks = 8 then build_ts fl it index coords (toks ! 0) (toks ! 3) (toks ! 4)
      else Inl (ValueError_unpack (length toks) 8))"
  by (induction fl it index coords toks rule: make_ts.induct) simp_all

lemma make_minimum_Inl: "make_minimum fl coords toks = Inl e \<Longrightarrow> is_ValueError e"
  by (auto simp: make_minimum_eq split: if_splits option.splits)

lemma loaded_init: "loaded init"
  by (simp add: loaded_def init_def)

lemma minimum_step_ok:
  assumes "min_line_ok fl line" "n \<le> length fc" "\<forall>l \<in> set (take n fc). line_ok fl l"
  shows "minimum_step fl n line fc s =
     Inr (\<lparr>objects = objects s @ [\<lparr>m_energy = the (fl (split line ! 0)),
                                      m_coords = concat (map (atom_coords fl) (take n fc))\<rparr>],
            minima = (minima s)(mini s \<mapsto> length (objects s)),
            mini = mini s + 1,
            session = session s @ [Add_Minimum (length (objects s))]\<rparr>,
          drop n fc)"
  using assms
  by (auto simp: minimum_step_def read_coords_ok make_minimum_eq min_line_ok_def)

lemma minimum_step_Inl: "minimum_step fl n line fc s = Inl e \<Longrightarrow> is_ValueError e"
  by (auto simp: minimum_step_def split: sum.splits prod.splits
           dest: read_coords_Inl make_minimum_Inl)

lemma minimum_step_Inr:
  assumes "minimum_step fl n line fc s = Inr (s', fc')"
  shows "n \<le> length fc \<and> fc' = drop n fc \<and> (\<forall>l \<in> set (take n fc). line_ok fl l)
     \<and> min_line_ok fl line"
  using assms
  by (auto simp: minimum_step_def make_minimum_eq min_line_ok_def
           split: sum.splits prod.splits if_splits option.splits dest!: read_coords_Inr)

lemma loaded_step:
  assumes "loaded s"
  shows "loaded \<lparr>objects = objects s @ [m],
            minima = (minima s)(mini s \<mapsto> length (objects s)),
            mini = mini s + 1,
            session = session s @ [Add_Minimum (length (objects s))]\<rparr>"
  using assms by (auto simp: loaded_def)

lemma minimum_step_loaded:
  assumes "minimum_step fl n line fc s = Inr (s', fc')" "loaded s"
  shows "loaded s' \<and> length (objects s') = Suc (length (objects s))"
proof -
  have ok: "min_line_ok fl line" "n \<le> length fc" "\<forall>l \<in> set (take n fc). line_ok fl l"
    using minimum_step_Inr [OF assms(1)] by auto
  show ?thesis
    using assms(1) loaded_step [OF assms(2)] unfolding minimum_step_ok [OF ok] by auto
qed

lemma read_minima_append:
  "read_minima fl n (pre @ rest) fc s =
     (case read_minima fl n pre fc s of
        Inl x \<Rightarrow> Inl x
      | Inr s' \<Rightarrow> read_minima fl n rest (drop (n * length pre) fc) s')"
proof (induction pre arbitrary: fc s)
  case Nil
  then show ?case by simp
next
  case (Cons l pre)
  show ?case
  proof (cases "minimum_step fl n l fc s")
    case (Inl e)
    then show ?thesis by simp
  next
    case (Inr p)
    obtain s1 fc1 where p: "p = (s1, fc1)" by (cases p)
    have fc1: "fc1 = drop n fc"
      using minimum_step_Inr [of fl n l fc s s1 fc1] Inr p by simp
    have dr: "drop (n * length pre) fc1 = drop (n * length (l # pre)) fc"
      by (simp add: fc1 add.commute)
    show ?thesis
      using Inr p Cons.IH [of fc1 s1] by (simp add: dr split: sum.splits)
  qed
qed

lemma read_minima_Inr:
  assumes "read_minima fl n lines fc s = Inr s'" "loaded s"
  shows "loaded s' \<and> length (objects s') = length (objects s) + length lines
     \<and> session s' = session s @ map Add_Minimum [length (objects s)..<length (objects s')]
     \<and> n * length lines \<le> length fc"
  using assms
proof (induction lines arbitrary: fc s)
  case Nil
  then show ?case by simp
next
  case (Cons l lines)
  from Cons.prems(1) obtain s1 fc1 where
    st: "minimum_step fl n l fc s = Inr (s1, fc1)" and
    rest: "read_minima fl n lines fc1 s1 = Inr s'"
    by (auto split: sum.splits)
  have ok: "min_line_ok fl l" "n \<le> length fc" "\<forall>l \<in> set (take n fc). line_ok fl l"
    and fc1: "fc1 = drop n fc"
    using minimum_step_Inr [OF st] by auto
  have s1: "loaded s1" "length (objects s1) = Suc (length (objects s))"
    using minimum_step_loaded [OF st Cons.prems(2)] by auto
  have ss: "session s1 = session s @ [Add_Minimum (length (objects s))]"
    using st unfolding minimum_step_ok [OF ok] by auto
  from Cons.IH [OF rest s1(1)]
  have ih: "loaded s'" "length (objects s') = length (objects s1) + length lines"
    "session s' = session s1 @ map Add_Minimum [length (objects s1)..<length (objects s')]"
    "n * length lines \<le> length fc1"
    by auto
  have lt: "length (objects s) < length (objects s')"
    using ih(2) s1(2) by simp
  have up: "[length (objects s)..<length (objects s')]
      = length (objects s) # [length (objects s1)..<length (objects s')]"
    unfolding s1(2) using lt by (rule upt_conv_Cons)
  have bnd: "n * length (l # lines) \<le> length fc"
    using ih(4) ok(2) fc1 by simp
  have len: "length (objects s') = length (objects s) + length (l # lines)"
    using ih(2) s1(2) by simp
  have "session s' = (session s @ [Add_Minimum (length (objects s))])
      @ map Add_Minimum [length (objects s1)..<length (objects s')]"
    using ih(3) ss by (simp only:)
  then have sess: "session s' = session s @ map Add_Minimum [length (objects s)..<length (objects s')]"
    by (simp only: up list.map append_assoc append_Cons append_Nil)
  show ?case
    using ih(1) len sess bnd by blast
qed

lemma read_minima_Inl:
  assumes "read_minima fl n lines fc s = Inl (e, s')" "loaded s"
  shows "loaded s' \<and> is_ValueError e \<and> length (objects s') < length (objects s) + length lines
     \<and> session s' = session s @ map Add_Minimum [length (objects s)..<length (objects s')]
     \<and> length (objects s) \<le> length (objects s')
     \<and> n * (length (objects s') - length (objects s)) \<le> length fc"
  using assms
proof (induction lines arbitrary: fc s)
  case Nil
  then show ?case by simp
next
  case (Cons l lines)
  show ?case
  proof (cases "minimum_step fl n l fc s")
    case (Inl e')
    with Cons.prems show ?thesis
      by (auto dest: minimum_step_Inl)
  next
    case (Inr p)
    obtain s1 fc1 where p: "p = (s1, fc1)" by (cases p)
    have st: "minimum_step fl n l fc s = Inr (s1, fc1)"
      using Inr p by simp
    have rest: "read_minima fl n lines fc1 s1 = Inl (e, s')"
      using Cons.prems(1) st by simp
    have ok: "min_line_ok fl l" "n \<le> length fc" "\<forall>l \<in> set (take n fc). line_ok fl l"
      and fc1: "fc1 = drop n fc"
      using minimum_step_Inr [OF st] by auto
    have s1: "loaded s1" "length (objects s1) = Suc (length (objects s))"
      using minimum_step_loaded [OF st Cons.prems(2)] by auto
    have ss: "session s1 = session s @ [Add_Minimum (length (objects s))]"
      using st unfolding minimum_step_ok [OF ok] by auto
    from Cons.IH [OF rest s1(1)]
    have ih: "loaded s'" "is_ValueError e" "length (objects s') < length (objects s1) + length lines"
      "session s' = session s1 @ map Add_Minimum [length (objects s1)..<length (objects s')]"
      "length (objects s1) \<le> length (objects s')"
      "n * (length (objects s') - length (objects s1)) \<le> length fc1"
      by auto
    have lt: "length (objects s) < length (objects s')"
      using ih(5) s1(2) by simp
    have up: "[length (objects s)..<length (objects s')]
        = length (objects s) # [length (objects s1)..<length (objects s')]"
      unfolding s1(2) using lt by (rule upt_conv_Cons)
    have "length (objects s') - length (objects s) = Suc (length (objects s') - length (objects s1))"
      using ih(5) s1(2) by simp
    then have "n * (length (objects s') - length (objects s))
        = n + n * (length (objects s') - length (objects s1))"
      by simp
    then have bound: "n * (length (objects s') - length (objects s)) \<le> length fc"
      using ih(6) ok(2) fc1 by simp
    have len: "length (objects s') < length (objects s) + length (l # lines)"
      using ih(3) s1(2) by simp
    have "session s' = (session s @ [Add_Minimum (length (objects s))])
        @ map Add_Minimum [length (objects s1)..<length (objects s')]"
      using ih(4) ss by (simp only:)
    then have sess: "session s' = session s @ map Add_Minimum [length (objects s)..<length (objects s')]"
      by (simp only: up list.map append_assoc append_Cons append_Nil)
    have le: "length (objects s) \<le> length (objects s')"
      using lt by simp
    show ?thesis
      using ih(1,2) len sess le bound by blast
  qed
qed

lemma read_minima_short:
  assumes "0 < n" "length fc < n * length lines"
  shows "\<exists>e s'. read_minima fl n lines fc s = Inl (e, s')"
  using assms(2)
proof (induction lines arbitrary: fc s)
  case Nil
  then show ?case by simp
next
  case (Cons l lines)
  show ?case
  proof (cases "minimum_step fl n l fc s")
    case (Inl e')
    then show ?thesis by simp
  next
    case (Inr p)
    obtain s1 fc1 where p: "p = (s1, fc1)" by (cases p)
    have st: "minimum_step fl n l fc s = Inr (s1, fc1)"
      using Inr p by simp
    have "n \<le> length fc" and fc1: "fc1 = drop n fc"
      using minimum_step_Inr [OF st] by auto
    then have "length fc1 < n * length lines"
      using Cons.prems by simp
    from Cons.IH [OF this, of s1] show ?thesis
      using st by simp
  qed
qed

lemma read_minima_ok:
  assumes "\<forall>l \<in> set lines. min_line_ok fl l" "n * length lines \<le> length fc"
    "\<forall>l \<in> set (take (n * length lines) fc). line_ok fl l"
  shows "\<exists>s'. read_minima fl n lines fc s = Inr s' \<and>
     objects s' = objects s @
       map (\<lambda>i. \<lparr>m_energy = the (fl (split (lines ! i) ! 0)),
                  m_coords = concat (map (atom_coords fl) (take n (drop (n * i) fc)))\<rparr>)
         [0..<length lines]"
  using assms
proof (induction lines arbitrary: fc s)
  case Nil
  then show ?case by simp
next
  case (Cons l lines)
  have nfc: "n \<le> length fc"
    using Cons.prems(2) by (simp add: add_leD1)
  have blk: "\<forall>l \<in> set (take n fc). line_ok fl l"
    using Cons.prems(3) by (auto dest: in_set_takeD simp: take_add)
  have l: "min_line_ok fl l" and ls: "\<forall>l \<in> set lines. min_line_ok fl l"
    using Cons.prems(1) by auto
  have len': "n * length lines \<le> length (drop n fc)"
    using Cons.prems(2) by simp
  have blk': "\<forall>l \<in> set (take (n * length lines) (drop n fc)). line_ok fl l"
    using Cons.prems(3) by (simp add: take_add)
  note st = minimum_step_ok [OF l nfc blk, of s]
  from Cons.IH [OF ls len' blk', of "fst (projr (minimum_step fl n l fc s))"]
  obtain s' where
    r: "read_minima fl n lines (drop n fc) (fst (projr (minimum_step fl n l fc s))) = Inr s'" and
    o: "objects s' = objects (fst (projr (minimum_step fl n l fc s))) @
       map (\<lambda>i. \<lparr>m_energy = the (fl (split (lines ! i) ! 0)),
                  m_coords = concat (map (atom_coords fl) (take n (drop (n * i) (drop n fc))))\<rparr>)
         [0..<length lines]"
    by blast
  have "read_minima fl n (l # lines) fc s = Inr s'"
    using r by (simp add: st)
  moreover have "objects s' = objects s @
       map (\<lambda>i. \<lparr>m_energy = the (fl (split ((l # lines) ! i) ! 0)),
                  m_coords = concat (map (atom_coords fl) (take n (drop (n * i) fc)))\<rparr>)
         [0..<length (l # lines)]"
    using o by (simp add: st map_upt_Suc add.commute del: upt_Suc)
  ultimately show ?case by blast
qed

lemma short_div:
  assumes "0 < (n::nat)" "m < n * k"
  shows "m div n < k" "n * (m div n) \<le> m" "m - n * (m div n) < n"
proof -
  show "m div n < k"
    using assms by (simp add: less_mult_imp_div_less mult.commute)
  show "n * (m div n) \<le> m"
    by simp
  have "m - n * (m div n) = m mod n"
    by (simp add: minus_mult_div_eq_mod)
  then show "m - n * (m div n) < n"
    using assms(1) by simp
qed

lemma read_minima_eof:
  assumes "0 < n" "length fc < n * length lines" "\<forall>l \<in> set fc. line_ok fl l"
    "\<forall>l \<in> set (take (length fc div n) lines). min_line_ok fl l"
  shows "\<exists>s'. read_minima fl n lines fc s = Inl (ValueError_broadcast 0 3, s') \<and>
     length (objects s') = length (objects s) + length fc div n"
proof -
  define k where "k = length fc div n"
  note d = short_div [OF assms(1,2), folded k_def]
  have klen: "length (take k lines) = k"
    using d(1) by simp
  have bnd: "n * length (take k lines) \<le> length fc"
    unfolding klen using d(2) .
  have blk: "\<forall>l \<in> set (take (n * length (take k lines)) fc). line_ok fl l"
    using assms(3) by (auto dest: in_set_takeD)
  from read_minima_ok [OF assms(4) [folded k_def] bnd blk, of s] obtain s1 where
    r1: "read_minima fl n (take k lines) fc s = Inr s1" and
    o: "objects s1 = objects s @
       map (\<lambda>i. \<lparr>m_energy = the (fl (split (take k lines ! i) ! 0)),
                  m_coords = concat (map (atom_coords fl) (take n (drop (n * i) fc)))\<rparr>)
         [0..<length (take k lines)]"
    by blast
  have o1: "length (objects s1) = length (objects s) + k"
    unfolding o klen by simp
  obtain l rest where dr: "drop k lines = l # rest"
    using d(1) by (cases "drop k lines") auto
  have "length (drop (n * k) fc) < n"
    using d(3) by simp
  moreover have "\<forall>l \<in> set (drop (n * k) fc). line_ok fl l"
    using assms(3) by (auto dest: in_set_dropD)
  ultimately have "read_coords fl n (drop (n * k) fc) = Inl (ValueError_broadcast 0 3)"
    by (rule read_coords_eof)
  then have "minimum_step fl n l (drop (n * k) fc) s1 = Inl (ValueError_broadcast 0 3)"
    by (simp add: minimum_step_def)
  then have r2: "read_minima fl n (l # rest) (drop (n * k) fc) s1 = Inl (ValueError_broadcast 0 3, s1)"
    by simp
  have "read_minima fl n (take k lines @ drop k lines) fc s
      = read_minima fl n (l # rest) (drop (n * k) fc) s1"
    unfolding read_minima_append r1 klen dr by (simp only: sum.case)
  then have "read_minima fl n lines fc s = Inl (ValueError_broadcast 0 3, s1)"
    unfolding append_take_drop_id r2 .
  then show ?thesis
    using o1 unfolding k_def by blast
qed

section \<open>Phase 2\<close>

text \<open>
  The loop over \<^verbatim>\<open>ts.data\<close>: it changes nothing but the session, to which it adds one
  TransitionState per line it gets through, each with references taken from the dict.
\<close>

lemma loaded_lookup:
  "loaded s \<Longrightarrow>
   minima s k = (if 1 \<le> k \<and> k \<le> int (length (objects s)) then Some (nat (k - 1)) else None)"
  by (auto simp: loaded_def)

lemma build_ts_ok:
  assumes "loaded s" "fl e \<noteq> None" "ordinal_ok it (length (objects s)) a"
    "ordinal_ok it (length (objects s)) b"
  shows "build_ts fl it (minima s) coords e a b =
     Inr \<lparr>ts_energy = the (fl e), ts_coords = coords,
          ts_min1 = nat (the (it a) - 1), ts_min2 = nat (the (it b) - 1)\<rparr>"
  using assms(2,3,4)
  by (auto simp: build_ts_def ordinal_ok_def loaded_lookup [OF assms(1)] split: option.splits)

lemma build_ts_Inr:
  assumes "build_ts fl it index coords e a b = Inr t"
  shows "ts_min1 t \<in> ran index \<and> ts_min2 t \<in> ran index"
  using assms by (auto simp: build_ts_def ran_def split: option.splits)

lemma ts_step_Inr:
  assumes "ts_step fl it n line fc s = Inr (s', fc')"
  shows "n \<le> length fc \<and> fc' = drop n fc \<and> (\<forall>l \<in> set (take n fc). line_ok fl l) \<and>
     (\<exists>t. s' = s\<lparr>session := session s @ [Add_TransitionState t]\<rparr> \<and>
          ts_min1 t \<in> ran (minima s) \<and> ts_min2 t \<in> ran (minima s))"
  using assms
  by (auto simp: ts_step_def make_ts_eq
           split: sum.splits prod.splits if_splits dest!: read_coords_Inr build_ts_Inr)

lemma ts_step_ok:
  assumes "loaded s" "ts_line_ok fl it (length (objects s)) line" "n \<le> length fc"
    "\<forall>l \<in> set (take n fc). line_ok fl l"
  shows "ts_step fl it n line fc s =
     Inr (s\<lparr>session := session s @
              [Add_TransitionState
                 \<lparr>ts_energy = the (fl (split line ! 0)),
                  ts_coords = concat (map (atom_coords fl) (take n fc)),
                  ts_min1 = nat (the (it (split line ! 3)) - 1),
                  ts_min2 = nat (the (it (split line ! 4)) - 1)\<rparr>]\<rparr>,
          drop n fc)"
  using assms(2,3,4)
  by (simp add: ts_step_def read_coords_ok make_ts_eq ts_line_ok_def build_ts_ok [OF assms(1)])

lemma read_ts_append:
  "read_ts fl it n (pre @ rest) fc s =
     (case read_ts fl it n pre fc s of
        Inl x \<Rightarrow> Inl x
      | Inr s' \<Rightarrow> read_ts fl it n rest (drop (n * length pre) fc) s')"
proof (induction pre arbitrary: fc s)
  case Nil
  then show ?case by simp
next
  case (Cons l pre)
  show ?case
  proof (cases "ts_step fl it n l fc s")
    case (Inl e)
    then show ?thesis by simp
  next
    case (Inr p)
    obtain s1 fc1 where p: "p = (s1, fc1)" by (cases p)
    have fc1: "fc1 = drop n fc"
      using ts_step_Inr [of fl it n l fc s s1 fc1] Inr p by simp
    have dr: "drop (n * length pre) fc1 = drop (n * length (l # pre)) fc"
      by (simp add: fc1 add.commute)
    show ?thesis
      using Inr p Cons.IH [of fc1 s1] by (simp add: dr split: sum.splits)
  qed
qed

lemma read_ts_Inr:
  assumes "read_ts fl it n lines fc s = Inr s'"
  shows "\<exists>ts. s' = s\<lparr>session := session s @ map Add_TransitionState ts\<rparr> \<and>
     length ts = length lines \<and>
     (\<forall>t \<in> set ts. ts_min1 t \<in> ran (minima s) \<and> ts_min2 t \<in> ran (minima s)) \<and>
     n * length lines \<le> length fc"
  using assms
proof (induction lines arbitrary: fc s)
  case Nil
  then show ?case by simp
next
  case (Cons l lines)
  from Cons.prems obtain s1 fc1 where
    st: "ts_step fl it n l fc s = Inr (s1, fc1)" and
    rest: "read_ts fl it n lines fc1 s1 = Inr s'"
    by (auto split: sum.splits)
  from ts_step_Inr [OF st] obtain t where
    nfc: "n \<le> length fc" and fc1: "fc1 = drop n fc" and
    s1: "s1 = s\<lparr>session := session s @ [Add_TransitionState t]\<rparr>" and
    t: "ts_min1 t \<in> ran (minima s)" "ts_min2 t \<in> ran (minima s)"
    by blast
  from Cons.IH [OF rest] obtain ts where
    s': "s' = s1\<lparr>session := session s1 @ map Add_TransitionState ts\<rparr>" and
    len: "length ts = length lines" and
    refs: "\<forall>t \<in> set ts. ts_min1 t \<in> ran (minima s1) \<and> ts_min2 t \<in> ran (minima s1)" and
    bnd: "n * length lines \<le> length fc1"
    by blast
  have "s' = s\<lparr>session := session s @ map Add_TransitionState (t # ts)\<rparr>"
    by (simp add: s' s1)
  moreover have "length (t # ts) = length (l # lines)"
    by (simp add: len)
  moreover have "\<forall>u \<in> set (t # ts). ts_min1 u \<in> ran (minima s) \<and> ts_min2 u \<in> ran (minima s)"
    using refs t by (simp add: s1)
  moreover have "n * length (l # lines) \<le> length fc"
    using bnd nfc fc1 by simp
  ultimately show ?case by blast
qed

lemma read_ts_Inl:
  assumes "read_ts fl it n lines fc s = Inl (e, s')"
  shows "\<exists>ts. s' = s\<lparr>session := session s @ map Add_TransitionState ts\<rparr> \<and>
     length ts < length lines \<and>
     (\<forall>t \<in> set ts. ts_min1 t \<in> ran (minima s) \<and> ts_min2 t \<in> ran (minima s)) \<and>
     n * length ts \<le> length fc"
  using assms
proof (induction lines arbitrary: fc s)
  case Nil
  then show ?case by simp
next
  case (Cons l lines)
  show ?case
  proof (cases "ts_step fl it n l fc s")
    case (Inl e')
    with Cons.prems have "s' = s" by simp
    then have "s' = s\<lparr>session := session s @ map Add_TransitionState []\<rparr>"
      by simp
    then show ?thesis
      by (intro exI [of _ "[]"]) simp
  next
    case (Inr p)
    obtain s1 fc1 where p: "p = (s1, fc1)" by (cases p)
    have st: "ts_step fl it n l fc s = Inr (s1, fc1)"
      using Inr p by simp
    have rest: "read_ts fl it n lines fc1 s1 = Inl (e, s')"
      using Cons.prems st by simp
    from ts_step_Inr [OF st] obtain t where
      nfc: "n \<le> length fc" and fc1: "fc1 = drop n fc" and
      s1: "s1 = s\<lparr>session := session s @ [Add_TransitionState t]\<rparr>" and
      t: "ts_min1 t \<in> ran (minima s)" "ts_min2 t \<in> ran (minima s)"
      by blast
    from Cons.IH [OF rest] obtain ts where
      s': "s' = s1\<lparr>session := session s1 @ map Add_TransitionState ts\<rparr>" and
      len: "length ts < length lines" and
      refs: "\<forall>t \<in> set ts. ts_min1 t \<in> ran (minima s1) \<and> ts_min2 t \<in> ran (minima s1)" and
      bnd: "n * length ts \<le> length fc1"
      by blast
    have "s' = s\<lparr>session := session s @ map Add_TransitionState (t # ts)\<rparr>"
      by (simp add: s' s1)
    moreover have "length (t # ts) < length (l # lines)"
      by (simp add: len)
    moreover have "\<forall>u \<in> set (t # ts). ts_min1 u \<in> ran (minima s) \<and> ts_min2 u \<in> ran (minima s)"
      using refs t by (simp add: s1)
    moreover have "n * length (t # ts) \<le> length fc"
      using bnd nfc fc1 by simp
    ultimately show ?thesis by blast
  qed
qed

lemma read_ts_short:
  assumes "0 < n" "length fc < n * length lines"
  shows "\<exists>e s'. read_ts fl it n lines fc s = Inl (e, s')"
  using assms(2)
proof (induction lines arbitrary: fc s)
  case Nil
  then show ?case by simp
next
  case (Cons l lines)
  show ?case
  proof (cases "ts_step fl it n l fc s")
    case (Inl e')
    then show ?thesis by simp
  next
    case (Inr p)
    obtain s1 fc1 where p: "p = (s1, fc1)" by (cases p)
    have st: "ts_step fl it n l fc s = Inr (s1, fc1)"
      using Inr p by simp
    have "n \<le> length fc" and fc1: "fc1 = drop n fc"
      using ts_step_Inr [OF st] by auto
    then have "length fc1 < n * length lines"
      using Cons.prems by simp
    from Cons.IH [OF this, of s1] show ?thesis
      using st by simp
  qed
qed

lemma read_ts_ok:
  assumes "loaded s" "\<forall>l \<in> set lines. ts_line_ok fl it (length (objects s)) l"
    "n * length lines \<le> length fc" "\<forall>l \<in> set (take (n * length lines) fc). line_ok fl l"
  shows "read_ts fl it n lines fc s =
     Inr (s\<lparr>session := session s @
        map (\<lambda>i. Add_TransitionState
                 \<lparr>ts_energy = the (fl (split (lines ! i) ! 0)),
                  ts_coords = concat (map (atom_coords fl) (take n (drop (n * i) fc))),
                  ts_min1 = nat (the (it (split (lines ! i) ! 3)) - 1),
                  ts_min2 = nat (the (it (split (lines ! i) ! 4)) - 1)\<rparr>)
          [0..<length lines]\<rparr>)"
  using assms
proof (induction lines arbitrary: fc s)
  case Nil
  then show ?case by simp
next
  case (Cons l lines)
  have nfc: "n \<le> length fc"
    using Cons.prems(3) by (simp add: add_leD1)
  have blk: "\<forall>l \<in> set (take n fc). line_ok fl l"
    using Cons.prems(4) by (auto dest: in_set_takeD simp: take_add)
  have l: "ts_line_ok fl it (length (objects s)) l"
    using Cons.prems(2) by auto
  define s1 where "s1 = s\<lparr>session := session s @
              [Add_TransitionState
                 \<lparr>ts_energy = the (fl (split l ! 0)),
                  ts_coords = concat (map (atom_coords fl) (take n fc)),
                  ts_min1 = nat (the (it (split l ! 3)) - 1),
                  ts_min2 = nat (the (it (split l ! 4)) - 1)\<rparr>]\<rparr>"
  have st: "ts_step fl it n l fc s = Inr (s1, drop n fc)"
    unfolding s1_def by (rule ts_step_ok [OF Cons.prems(1) l nfc blk])
  have ld: "loaded s1"
    using Cons.prems(1) by (simp add: s1_def loaded_def)
  have ls: "\<forall>l \<in> set lines. ts_line_ok fl it (length (objects s1)) l"
    using Cons.prems(2) by (simp add: s1_def)
  have len': "n * length lines \<le> length (drop n fc)"
    using Cons.prems(3) by simp
  have blk': "\<forall>l \<in> set (take (n * length lines) (drop n fc)). line_ok fl l"
    using Cons.prems(4) by (simp add: take_add)
  show ?case
    using Cons.IH [OF ld ls len' blk'] st
    by (simp add: s1_def map_upt_Suc add.commute del: upt_Suc)
qed

lemma read_ts_eof:
  assumes "0 < n" "length fc < n * length lines" "\<forall>l \<in> set fc. line_ok fl l"
    "\<forall>l \<in> set (take (length fc div n) lines). ts_line_ok fl it (length (objects s)) l" "loaded s"
  shows "\<exists>ts. read_ts fl it n lines fc s =
       Inl (ValueError_broadcast 0 3, s\<lparr>session := session s @ map Add_TransitionState ts\<rparr>) \<and>
     length ts = length fc div n"
proof -
  define k where "k = length fc div n"
  note d = short_div [OF assms(1,2), folded k_def]
  have klen: "length (take k lines) = k"
    using d(1) by simp
  have bnd: "n * length (take k lines) \<le> length fc"
    unfolding klen using d(2) .
  have blk: "\<forall>l \<in> set (take (n * length (take k lines)) fc). line_ok fl l"
    using assms(3) by (auto dest: in_set_takeD)
  define ts where "ts = map (\<lambda>i.
                 \<lparr>ts_energy = the (fl (split (take k lines ! i) ! 0)),
                  ts_coords = concat (map (atom_coords fl) (take n (drop (n * i) fc))),
                  ts_min1 = nat (the (it (split (take k lines ! i) ! 3)) - 1),
                  ts_min2 = nat (the (it (split (take k lines ! i) ! 4)) - 1)\<rparr>)
          [0..<length (take k lines)]"
  have s1: "read_ts fl it n (take k lines) fc s = Inr (s\<lparr>session := session s @ map Add_TransitionState ts\<rparr>)"
    unfolding ts_def map_map comp_def
    by (rule read_ts_ok [OF assms(5) assms(4) [folded k_def] bnd blk])
  have len: "length ts = k"
    unfolding ts_def length_map length_upt klen by simp
  obtain l rest where dr: "drop k lines = l # rest"
    using d(1) by (cases "drop k lines") auto
  have "length (drop (n * k) fc) < n"
    using d(3) by simp
  moreover have "\<forall>l \<in> set (drop (n * k) fc). line_ok fl l"
    using assms(3) by (auto dest: in_set_dropD)
  ultimately have "read_coords fl n (drop (n * k) fc) = Inl (ValueError_broadcast 0 3)"
    by (rule read_coords_eof)
  then have "\<And>s1. ts_step fl it n l (drop (n * k) fc) s1 = Inl (ValueError_broadcast 0 3)"
    by (simp add: ts_step_def)
  then have r2: "\<And>s1. read_ts fl it n (l # rest) (drop (n * k) fc) s1 = Inl (ValueError_broadcast 0 3, s1)"
    by simp
  have "read_ts fl it n (take k lines @ drop k lines) fc s
      = read_ts fl it n (l # rest) (drop (n * k) fc) (s\<lparr>session := session s @ map Add_TransitionState ts\<rparr>)"
    unfolding read_ts_append s1 klen dr by (simp only: sum.case)
  then have "read_ts fl it n lines fc s =
      Inl (ValueError_broadcast 0 3, s\<lparr>session := session s @ map Add_TransitionState ts\<rparr>)"
    unfolding append_take_drop_id r2 .
  then show ?thesis
    using len unfolding k_def by blast
qed



section \<open>The whole run\<close>

text \<open>
  The calls on the session counted, and the shape of the state a run ends in: after a
  completed run, after a failure in phase 1 and after a failure in phase 2.
\<close>

lemma triple_line_ok: "triple_ok fl l \<Longrightarrow> line_ok fl l"
  by (simp add: triple_ok_def line_ok_def)

lemma triple_atom_coords: "triple_ok fl l \<Longrightarrow> atom_coords fl l = map (\<lambda>t. the (fl t)) (split l)"
  by (simp add: triple_ok_def atom_coords_def)

lemma coords_ok_line_ok: "coords_ok fl n m fc \<Longrightarrow> \<forall>l \<in> set (take (n * m) fc). line_ok fl l"
  by (simp add: coords_ok_def triple_line_ok)

lemma coords_ok_block:
  assumes "coords_ok fl n m fc" "i < m"
  shows "concat (map (atom_coords fl) (take n (drop (n * i) fc))) = block fl n fc i"
proof -
  have "\<forall>l \<in> set (take n (drop (n * i) fc)). triple_ok fl l"
  proof
    fix l assume "l \<in> set (take n (drop (n * i) fc))"
    then obtain j where j: "j < n" "j < length fc - n * i" "l = fc ! (n * i + j)"
      by (auto simp: in_set_conv_nth)
    have "n * i + j < n * m"
    proof -
      have "n * i + j < n * i + n" using j(1) by simp
      also have "\<dots> = n * Suc i" by simp
      also have "\<dots> \<le> n * m" using assms(2) by (intro mult_le_mono2) simp
      finally show ?thesis .
    qed
    moreover have "n * i + j < length fc" using j(2) by simp
    ultimately have "fc ! (n * i + j) \<in> set (take (n * m) fc)"
      by (auto simp: in_set_conv_nth intro!: exI [of _ "n * i + j"])
    then show "triple_ok fl l"
      using assms(1) j(3) by (simp add: coords_ok_def)
  qed
  then have "map (atom_coords fl) (take n (drop (n * i) fc))
      = map (\<lambda>l. map (\<lambda>t. the (fl t)) (split l)) (take n (drop (n * i) fc))"
    by (intro map_cong refl) (simp add: triple_atom_coords)
  then show ?thesis
    unfolding block_def by (rule arg_cong)
qed

lemma added_ts_append: "added_ts (xs @ ys) = added_ts xs @ added_ts ys"
  by (induction xs rule: added_ts.induct) simp_all

lemma added_minima_append: "added_minima (xs @ ys) = added_minima xs @ added_minima ys"
  by (induction xs rule: added_minima.induct) simp_all

lemma commits_append: "commits (xs @ ys) = commits xs + commits ys"
  by (induction xs rule: commits.induct) simp_all

lemma added_ts_map_min: "added_ts (map Add_Minimum rs) = []"
  by (induction rs) simp_all

lemma added_ts_map_ts: "added_ts (map Add_TransitionState ts) = ts"
  by (induction ts) simp_all

lemma added_minima_map_min: "added_minima (map Add_Minimum rs) = rs"
  by (induction rs) simp_all

lemma added_minima_map_ts: "added_minima (map Add_TransitionState ts) = []"
  by (induction ts) simp_all

lemma commits_map_min: "commits (map Add_Minimum rs) = 0"
  by (induction rs) simp_all

lemma commits_map_ts: "commits (map Add_TransitionState ts) = 0"
  by (induction ts) simp_all

lemma takeWhile_phase1:
  "takeWhile (\<lambda>c. c \<noteq> Commit) (map Add_Minimum rs @ Commit # cs) = map Add_Minimum rs"
  by (induction rs) simp_all

lemmas log_simps =
  added_ts_append added_minima_append commits_append added_ts_map_min added_ts_map_ts
  added_minima_map_min added_minima_map_ts commits_map_min commits_map_ts takeWhile_phase1

lemma loaded_ran: "loaded s \<Longrightarrow> ran (minima s) = {0..<length (objects s)}"
proof (intro set_eqI iffI)
  fix r assume l: "loaded s" and "r \<in> ran (minima s)"
  then obtain k where "minima s k = Some r" by (auto simp: ran_def)
  then show "r \<in> {0..<length (objects s)}"
    using loaded_lookup [OF l, of k] by (auto split: if_splits)
next
  fix r assume l: "loaded s" and "r \<in> {0..<length (objects s)}"
  then have "minima s (int r + 1) = Some r"
    using loaded_lookup [OF l, of "int r + 1"] by auto
  then show "r \<in> ran (minima s)" by (auto simp: ran_def)
qed

lemma loaded_dom: "loaded s \<Longrightarrow> dom (minima s) = {1..int (length (objects s))}"
  by (auto simp: dom_def loaded_lookup split: if_splits)

lemma phase1_Inr:
  assumes "read_minima fl n min_data extractedmin init = Inr s1"
  shows "loaded s1 \<and> length (objects s1) = length min_data \<and>
     session s1 = map Add_Minimum [0..<length min_data] \<and> n * length min_data \<le> length extractedmin"
  using read_minima_Inr [OF assms loaded_init] by (simp add: init_def)

lemma phase1_Inl:
  assumes "read_minima fl n min_data extractedmin init = Inl (e, s)"
  shows "loaded s \<and> is_ValueError e \<and> length (objects s) < length min_data \<and>
     session s = map Add_Minimum [0..<length (objects s)] \<and> n * length (objects s) \<le> length extractedmin"
  using read_minima_Inl [OF assms loaded_init] by (simp add: init_def)

lemma run_Inr:
  assumes "run fl it n min_data extractedmin ts_data extractedts = Inr s"
  shows "\<exists>s1 ts. read_minima fl n min_data extractedmin init = Inr s1 \<and>
     s = s1\<lparr>session := map Add_Minimum [0..<length min_data] @ Commit # map Add_TransitionState ts @ [Commit]\<rparr> \<and>
     loaded s1 \<and> length (objects s1) = length min_data \<and> length ts = length ts_data \<and>
     (\<forall>t \<in> set ts. ts_min1 t \<in> ran (minima s1) \<and> ts_min2 t \<in> ran (minima s1))"
proof -
  from assms obtain s1 s2 where
    p1: "read_minima fl n min_data extractedmin init = Inr s1" and
    p2: "read_ts fl it n ts_data extractedts (commit s1) = Inr s2" and
    s: "s = commit s2"
    by (auto simp: run_def split: sum.splits)
  note f1 = phase1_Inr [OF p1]
  from read_ts_Inr [OF p2] obtain ts where
    s2: "s2 = (commit s1)\<lparr>session := session (commit s1) @ map Add_TransitionState ts\<rparr>" and
    len: "length ts = length ts_data" and
    refs: "\<forall>t \<in> set ts. ts_min1 t \<in> ran (minima (commit s1)) \<and> ts_min2 t \<in> ran (minima (commit s1))"
    by blast
  have "s = s1\<lparr>session := map Add_Minimum [0..<length min_data] @ Commit # map Add_TransitionState ts @ [Commit]\<rparr>"
    using f1 by (simp add: s s2 commit_def)
  moreover have "\<forall>t \<in> set ts. ts_min1 t \<in> ran (minima s1) \<and> ts_min2 t \<in> ran (minima s1)"
    using refs by (simp add: commit_def)
  ultimately show ?thesis
    using p1 f1 len by blast
qed

lemma run_Inl:
  assumes "run fl it n min_data extractedmin ts_data extractedts = Inl (e, s)"
  shows "(read_minima fl n min_data extractedmin init = Inl (e, s)) \<or>
     (\<exists>s1 ts. read_minima fl n min_data extractedmin init = Inr s1 \<and>
        read_ts fl it n ts_data extractedts (commit s1) = Inl (e, s) \<and>
        s = s1\<lparr>session := map Add_Minimum [0..<length min_data] @ Commit # map Add_TransitionState ts\<rparr> \<and>
        loaded s1 \<and> length (objects s1) = length min_data \<and> length ts < length ts_data \<and>
        n * length ts \<le> length extractedts \<and>
        (\<forall>t \<in> set ts. ts_min1 t \<in> ran (minima s1) \<and> ts_min2 t \<in> ran (minima s1)))"
proof (cases "read_minima fl n min_data extractedmin init")
  case (Inl x)
  then show ?thesis using assms by (simp add: run_def)
next
  case (Inr s1)
  then have p2: "read_ts fl it n ts_data extractedts (commit s1) = Inl (e, s)"
    using assms by (auto simp: run_def split: sum.splits)
  note f1 = phase1_Inr [OF Inr]
  from read_ts_Inl [OF p2] obtain ts where
    s2: "s = (commit s1)\<lparr>session := session (commit s1) @ map Add_TransitionState ts\<rparr>" and
    len: "length ts < length ts_data" and
    refs: "\<forall>t \<in> set ts. ts_min1 t \<in> ran (minima (commit s1)) \<and> ts_min2 t \<in> ran (minima (commit s1))" and
    bnd: "n * length ts \<le> length extractedts"
    by blast
  have "s = s1\<lparr>session := map Add_Minimum [0..<length min_data] @ Commit # map Add_TransitionState ts\<rparr>"
    using f1 by (simp add: s2 commit_def)
  moreover have "\<forall>t \<in> set ts. ts_min1 t \<in> ran (minima s1) \<and> ts_min2 t \<in> ran (minima s1)"
    using refs by (simp add: commit_def)
  ultimately show ?thesis
    using Inr p2 f1 len bnd by blast
qed

lemma takeWhile_no_commit:
  "takeWhile (\<lambda>c. c \<noteq> Commit) (map Add_Minimum rs) = map Add_Minimum rs"
  by (induction rs) simp_all

lemma run_state:
  assumes "read_minima fl n min_data extractedmin init = Inr s1"
  shows "\<exists>ts fin. state_of (run fl it n min_data extractedmin ts_data extractedts) =
     s1\<lparr>session := map Add_Minimum [0..<length min_data] @ Commit # map Add_TransitionState ts @ fin\<rparr>
     \<and> (fin = [] \<or> fin = [Commit])"
proof (cases "run fl it n min_data extractedmin ts_data extractedts")
  case (Inl p)
  obtain e s where p: "p = (e, s)" by (cases p)
  from run_Inl [of fl it n min_data extractedmin ts_data extractedts e s] Inl p assms
  obtain ts where
    "s = s1\<lparr>session := map Add_Minimum [0..<length min_data] @ Commit # map Add_TransitionState ts\<rparr>"
    by auto
  then have "state_of (run fl it n min_data extractedmin ts_data extractedts) =
     s1\<lparr>session := map Add_Minimum [0..<length min_data] @ Commit # map Add_TransitionState ts @ []\<rparr>"
    using Inl p by (simp add: state_of_def)
  then show ?thesis by blast
next
  case (Inr s)
  from run_Inr [OF Inr] assms obtain ts where
    "s = s1\<lparr>session := map Add_Minimum [0..<length min_data] @ Commit # map Add_TransitionState ts @ [Commit]\<rparr>"
    by auto
  then have "state_of (run fl it n min_data extractedmin ts_data extractedts) =
     s1\<lparr>session := map Add_Minimum [0..<length min_data] @ Commit # map Add_TransitionState ts @ [Commit]\<rparr>"
    using Inr by (simp add: state_of_def)
  then show ?thesis by blast
qed

lemma phase1_valid:
  assumes "valid_minima fl n min_data extractedmin"
  shows "\<exists>s1. read_minima fl n min_data extractedmin init = Inr s1 \<and> loaded s1 \<and>
     length (objects s1) = length min_data \<and>
     (\<forall>i<length min_data. objects s1 ! i =
        \<lparr>m_energy = the (fl (split (min_data ! i) ! 0)), m_coords = block fl n extractedmin i\<rparr>)"
proof -
  have lines: "\<forall>l \<in> set min_data. min_line_ok fl l"
    and co: "coords_ok fl n (length min_data) extractedmin"
    using assms by (auto simp: valid_minima_def)
  have len: "n * length min_data \<le> length extractedmin"
    using co by (simp add: coords_ok_def)
  from read_minima_ok [OF lines len coords_ok_line_ok [OF co], of init]
  obtain s1 where
    r: "read_minima fl n min_data extractedmin init = Inr s1" and
    o: "objects s1 = objects init @
       map (\<lambda>i. \<lparr>m_energy = the (fl (split (min_data ! i) ! 0)),
                  m_coords = concat (map (atom_coords fl) (take n (drop (n * i) extractedmin)))\<rparr>)
         [0..<length min_data]"
    by blast
  have "\<forall>i<length min_data. objects s1 ! i =
        \<lparr>m_energy = the (fl (split (min_data ! i) ! 0)), m_coords = block fl n extractedmin i\<rparr>"
    using coords_ok_block [OF co] by (simp add: o init_def)
  then show ?thesis
    using r phase1_Inr [OF r] by blast
qed

lemmas valid_defs =
  valid_minima_def valid_ts_def coords_ok_def triple_ok_def min_line_ok_def ts_line_ok_def
  ordinal_ok_def

lemma loaded_commit: "loaded s \<Longrightarrow> loaded (commit s)"
  by (simp add: loaded_def commit_def)

lemma commit_fields:
  "objects (commit s) = objects s" "minima (commit s) = minima s"
  "session (commit s) = session s @ [Commit]"
  by (simp_all add: commit_def)

lemma phase1_short:
  assumes "0 < n" "length extractedmin < n * length min_data"
  shows "\<exists>e s. run fl it n min_data extractedmin ts_data extractedts = Inl (e, s) \<and> is_ValueError e \<and>
       commits (session s) = 0 \<and> added_ts (session s) = [] \<and>
       n * length (added_minima (session s)) \<le> length extractedmin"
proof -
  from read_minima_short [OF assms, of fl init] obtain e s where
    r: "read_minima fl n min_data extractedmin init = Inl (e, s)"
    by blast
  note f = phase1_Inl [OF r]
  have "run fl it n min_data extractedmin ts_data extractedts = Inl (e, s)"
    by (simp add: run_def r)
  moreover have "commits (session s) = 0" "added_ts (session s) = []"
    "length (added_minima (session s)) = length (objects s)"
    using f by (simp_all add: log_simps)
  ultimately show ?thesis
    using f by auto
qed

lemma phase1_eof:
  assumes "0 < n" "length extractedmin < n * length min_data"
    "\<forall>l \<in> set extractedmin. line_ok fl l"
    "\<forall>l \<in> set (take (length extractedmin div n) min_data). min_line_ok fl l"
  shows "\<exists>s. run fl it n min_data extractedmin ts_data extractedts = Inl (ValueError_broadcast 0 3, s) \<and>
       session s = map Add_Minimum [0..<length extractedmin div n]"
proof -
  from read_minima_eof [OF assms, of init] obtain s where
    r: "read_minima fl n min_data extractedmin init = Inl (ValueError_broadcast 0 3, s)" and
    len: "length (objects s) = length extractedmin div n"
    by (auto simp: init_def)
  have "run fl it n min_data extractedmin ts_data extractedts = Inl (ValueError_broadcast 0 3, s)"
    by (simp add: run_def r)
  then show ?thesis
    using phase1_Inl [OF r] len by auto
qed

lemma phase2_short:
  assumes "0 < n" "read_minima fl n min_data extractedmin init = Inr s1"
    "length extractedts < n * length ts_data"
  shows "\<exists>e s. run fl it n min_data extractedmin ts_data extractedts = Inl (e, s) \<and>
       commits (session s) = 1 \<and> n * length (added_ts (session s)) \<le> length extractedts"
proof -
  from read_ts_short [OF assms(1,3), of fl it "commit s1"] obtain e s where
    r: "read_ts fl it n ts_data extractedts (commit s1) = Inl (e, s)"
    by blast
  from read_ts_Inl [OF r] obtain ts where
    s: "s = (commit s1)\<lparr>session := session (commit s1) @ map Add_TransitionState ts\<rparr>" and
    bnd: "n * length ts \<le> length extractedts"
    by blast
  have sess: "session s = map Add_Minimum [0..<length min_data] @ Commit # map Add_TransitionState ts"
    using phase1_Inr [OF assms(2)] by (simp add: s commit_def)
  have "run fl it n min_data extractedmin ts_data extractedts = Inl (e, s)"
    by (simp add: run_def assms(2) r)
  moreover have "commits (session s) = 1" "added_ts (session s) = ts"
    by (simp_all add: sess log_simps)
  ultimately show ?thesis
    using bnd by auto
qed

lemma phase2_eof:
  assumes "0 < n" "read_minima fl n min_data extractedmin init = Inr s1"
    "length extractedts < n * length ts_data"
    "\<forall>l \<in> set extractedts. line_ok fl l"
    "\<forall>l \<in> set (take (length extractedts div n) ts_data). ts_line_ok fl it (length min_data) l"
  shows "\<exists>s. run fl it n min_data extractedmin ts_data extractedts = Inl (ValueError_broadcast 0 3, s) \<and>
       length (added_ts (session s)) = length extractedts div n \<and> commits (session s) = 1"
proof -
  note f = phase1_Inr [OF assms(2)]
  have ld: "loaded (commit s1)"
    using f by (simp add: loaded_commit)
  have lines: "\<forall>l \<in> set (take (length extractedts div n) ts_data).
      ts_line_ok fl it (length (objects (commit s1))) l"
    using assms(5) f by (simp add: commit_fields)
  from read_ts_eof [OF assms(1,3,4) lines ld] obtain ts where
    r: "read_ts fl it n ts_data extractedts (commit s1) =
       Inl (ValueError_broadcast 0 3, (commit s1)\<lparr>session := session (commit s1) @ map Add_TransitionState ts\<rparr>)"
    and len: "length ts = length extractedts div n"
    by blast
  define s where "s = (commit s1)\<lparr>session := session (commit s1) @ map Add_TransitionState ts\<rparr>"
  have sess: "session s = map Add_Minimum [0..<length min_data] @ Commit # map Add_TransitionState ts"
    using f by (simp add: s_def commit_def)
  have "run fl it n min_data extractedmin ts_data extractedts = Inl (ValueError_broadcast 0 3, s)"
    by (simp add: run_def assms(2) r s_def)
  moreover have "commits (session s) = 1" "added_ts (session s) = ts"
    by (simp_all add: sess log_simps)
  ultimately show ?thesis
    using len by auto
qed

section \<open>The claims\<close>

text \<open>
  C1. In every run that completes, both endpoint references of every TransitionState added
  to the session are values of the dict \<^verbatim>\<open>minima\<close>, refer to a Minimum object that
  exists, and that object was added to the session before the first commit, that is,
  during phase 1. No TransitionState refers to anything else.
\<close>

theorem referential_integrity:
  assumes "run fl it n min_data extractedmin ts_data extractedts = Inr s"
  shows "\<forall>t \<in> set (added_ts (session s)). \<forall>r \<in> {ts_min1 t, ts_min2 t}.
     r \<in> ran (minima s) \<and> r < length (objects s) \<and>
     Add_Minimum r \<in> set (takeWhile (\<lambda>c. c \<noteq> Commit) (session s))"
proof -
  from run_Inr [OF assms] obtain s1 ts where
    s: "s = s1\<lparr>session := map Add_Minimum [0..<length min_data] @ Commit # map Add_TransitionState ts @ [Commit]\<rparr>" and
    ld: "loaded s1" and len: "length (objects s1) = length min_data" and
    refs: "\<forall>t \<in> set ts. ts_min1 t \<in> ran (minima s1) \<and> ts_min2 t \<in> ran (minima s1)"
    by blast
  have ran: "ran (minima s1) = {0..<length min_data}"
    using loaded_ran [OF ld] len by simp
  have ats: "added_ts (session s) = ts"
    by (simp add: s log_simps)
  have tw: "takeWhile (\<lambda>c. c \<noteq> Commit) (session s) = map Add_Minimum [0..<length min_data]"
    by (simp add: s takeWhile_phase1)
  show ?thesis
    unfolding ats tw using refs ran len by (auto simp: s)
qed

theorem referential_integrity_witness:
  "\<exists>s. run float_dec int_dec 1 [''-10.5 1.0 1 0 0 0'', ''-9.8 1.0 1 0 0 0'']
      [''0 0 0'', ''1 1 1''] [''-9.0 1.0 1 1 2 0 0 0''] [''0.5 0.5 0.5''] = Inr s \<and>
    added_ts (session s) \<noteq> [] \<and>
    (\<forall>t \<in> set (added_ts (session s)). \<forall>r \<in> {ts_min1 t, ts_min2 t}.
       r \<in> ran (minima s) \<and> r < length (objects s) \<and>
       Add_Minimum r \<in> set (takeWhile (\<lambda>c. c \<noteq> Commit) (session s)))"
proof -
  obtain s where s: "run float_dec int_dec 1 [''-10.5 1.0 1 0 0 0'', ''-9.8 1.0 1 0 0 0'']
      [''0 0 0'', ''1 1 1''] [''-9.0 1.0 1 1 2 0 0 0''] [''0.5 0.5 0.5''] = Inr s"
    and a: "added_ts (session s) \<noteq> []"
    by (simp add: eval_defs dec_defs)
  from referential_integrity [OF s] s a show ?thesis by blast
qed

text \<open>
  C2. When every line of \<^verbatim>\<open>min.data\<close> has six fields with a numeric first field and
  \<^verbatim>\<open>extractedmin\<close> holds \<open>n\<close> lines of three numeric tokens for each of them, the run
  constructs as many Minimum objects as \<^verbatim>\<open>min.data\<close> has lines and adds each of them to
  the session once, in order; the first commit is reached; the keys of \<^verbatim>\<open>minima\<close> are
  1 up to that number; and key \<open>i + 1\<close> holds the Minimum built from line \<open>i\<close> (counted from
  0): its energy is the value of the line's first field, its coordinates are the \<open>i\<close>-th
  block of the coordinate file. This holds of the state the run ends in, whatever phase 2
  does.
\<close>

theorem minima_count_and_index:
  assumes "valid_minima fl n min_data extractedmin"
  shows "let s = state_of (run fl it n min_data extractedmin ts_data extractedts) in
     length (objects s) = length min_data \<and>
     added_minima (session s) = [0..<length min_data] \<and>
     1 \<le> commits (session s) \<and>
     dom (minima s) = {1..int (length min_data)} \<and>
     (\<forall>i<length min_data.
        minima s (int i + 1) = Some i \<and>
        objects s ! i =
          \<lparr>m_energy = the (fl (split (min_data ! i) ! 0)), m_coords = block fl n extractedmin i\<rparr>)"
proof -
  from phase1_valid [OF assms] obtain s1 where
    r: "read_minima fl n min_data extractedmin init = Inr s1" and ld: "loaded s1" and
    len: "length (objects s1) = length min_data" and
    objs: "\<forall>i<length min_data. objects s1 ! i =
        \<lparr>m_energy = the (fl (split (min_data ! i) ! 0)), m_coords = block fl n extractedmin i\<rparr>"
    by blast
  from run_state [OF r, of it ts_data extractedts] obtain ts fin where
    s: "state_of (run fl it n min_data extractedmin ts_data extractedts) =
     s1\<lparr>session := map Add_Minimum [0..<length min_data] @ Commit # map Add_TransitionState ts @ fin\<rparr>"
    and fin: "fin = [] \<or> fin = [Commit]"
    by blast
  have am: "added_minima (map Add_Minimum [0..<length min_data] @ Commit # map Add_TransitionState ts @ fin)
      = [0..<length min_data]"
    using fin by (auto simp: log_simps)
  have cm: "1 \<le> commits (map Add_Minimum [0..<length min_data] @ Commit # map Add_TransitionState ts @ fin)"
    by (simp add: log_simps)
  have dm: "dom (minima s1) = {1..int (length min_data)}"
    using loaded_dom [OF ld] len by simp
  have lk: "\<forall>i<length min_data. minima s1 (int i + 1) = Some i"
    using loaded_lookup [OF ld] len by simp
  show ?thesis
    unfolding Let_def s using len am cm dm lk objs by simp
qed

theorem minima_count_and_index_witness:
  "valid_minima float_dec 2 [''-10.5 1.0 1 0 0 0'', ''-9.8 1.0 1 0 0 0'']
     [''0.0 0.0 0.0'', ''1.0 0.0 0.0'', ''0.0 1.0 0.0'', ''1.5 1.0 0.5''] \<and>
   (let s = state_of (run float_dec int_dec 2 [''-10.5 1.0 1 0 0 0'', ''-9.8 1.0 1 0 0 0'']
               [''0.0 0.0 0.0'', ''1.0 0.0 0.0'', ''0.0 1.0 0.0'', ''1.5 1.0 0.5''] [] [])
    in length (objects s) = 2 \<and> added_minima (session s) = [0, 1] \<and>
       minima s 1 = Some 0 \<and> minima s 2 = Some 1 \<and>
       objects s ! 0 = \<lparr>m_energy = - 21 / 2, m_coords = [0, 0, 0, 1, 0, 0]\<rparr> \<and>
       objects s ! 1 = \<lparr>m_energy = - 49 / 5, m_coords = [0, 1, 0, 3 / 2, 1, 1 / 2]\<rparr>)"
proof -
  define md where "md = [''-10.5 1.0 1 0 0 0'', ''-9.8 1.0 1 0 0 0'']"
  define mc where "mc = [''0.0 0.0 0.0'', ''1.0 0.0 0.0'', ''0.0 1.0 0.0'', ''1.5 1.0 0.5'']"
  define s where "s = state_of (run float_dec int_dec 2 md mc [] [])"
  have v: "valid_minima float_dec 2 md mc"
    by (simp add: md_def mc_def valid_defs split_def is_space_def dec_defs del: not_None_eq)
  have len: "length md = 2"
    by (simp add: md_def)
  have e0: "the (float_dec (split (md ! 0) ! 0)) = - 21 / 2"
    and e1: "the (float_dec (split (md ! Suc 0) ! 0)) = - 49 / 5"
    by (simp_all add: md_def split_def is_space_def dec_defs)
  have b0: "block float_dec 2 mc 0 = [0, 0, 0, 1, 0, 0]"
    and b1: "block float_dec 2 mc (Suc 0) = [0, 1, 0, 3 / 2, 1, 1 / 2]"
    by (simp_all add: mc_def block_def split_def is_space_def dec_defs)
  have u: "[0..<2] = [0, 1]"
    by (simp add: upt_conv_Cons)
  note m = minima_count_and_index [OF v, of int_dec "[]" "[]", unfolded Let_def, folded s_def]
  have all: "\<forall>i<2. minima s (int i + 1) = Some i \<and>
        objects s ! i =
          \<lparr>m_energy = the (float_dec (split (md ! i) ! 0)), m_coords = block float_dec 2 mc i\<rparr>"
    using m unfolding len by blast
  have "length (objects s) = 2" "added_minima (session s) = [0, 1]"
    using m unfolding len u by blast+
  moreover have "minima s 1 = Some 0" "objects s ! 0 = \<lparr>m_energy = - 21 / 2, m_coords = [0, 0, 0, 1, 0, 0]\<rparr>"
    using all [rule_format, of 0] by (simp_all add: e0 b0)
  moreover have "minima s 2 = Some 1"
    "objects s ! 1 = \<lparr>m_energy = - 49 / 5, m_coords = [0, 1, 0, 3 / 2, 1, 1 / 2]\<rparr>"
    using all [rule_format, of 1] by (simp_all add: e1 b1)
  ultimately show ?thesis
    using v unfolding Let_def s_def md_def mc_def by blast
qed

text \<open>
  C3. When both phases have well-formed input (for \<^verbatim>\<open>ts.data\<close>: eight fields, a numeric
  first field, and fourth and fifth fields that are ordinals of loaded minima), the run
  completes, and the number of TransitionState objects constructed and added to the session
  is the number of lines of \<^verbatim>\<open>ts.data\<close>; the \<open>i\<close>-th of them is built from line \<open>i\<close>.
\<close>

theorem ts_count:
  assumes "valid_minima fl n min_data extractedmin"
    and "valid_ts fl it n (length min_data) ts_data extractedts"
  shows "\<exists>s. run fl it n min_data extractedmin ts_data extractedts = Inr s \<and>
     length (added_ts (session s)) = length ts_data \<and>
     (\<forall>i<length ts_data.
        added_ts (session s) ! i =
          \<lparr>ts_energy = the (fl (split (ts_data ! i) ! 0)),
           ts_coords = block fl n extractedts i,
           ts_min1 = nat (the (it (split (ts_data ! i) ! 3)) - 1),
           ts_min2 = nat (the (it (split (ts_data ! i) ! 4)) - 1)\<rparr>)"
proof -
  from phase1_valid [OF assms(1)] obtain s1 where
    r: "read_minima fl n min_data extractedmin init = Inr s1" and ld: "loaded s1" and
    len: "length (objects s1) = length min_data"
    by blast
  have ld': "loaded (commit s1)" and len': "length (objects (commit s1)) = length min_data"
    using ld len by (simp_all add: commit_def loaded_def)
  have lines: "\<forall>l \<in> set ts_data. ts_line_ok fl it (length (objects (commit s1))) l"
    and co: "coords_ok fl n (length ts_data) extractedts"
    using assms(2) len' by (auto simp: valid_ts_def)
  have bnd: "n * length ts_data \<le> length extractedts"
    using co by (simp add: coords_ok_def)
  define ts where "ts = map (\<lambda>i.
                 \<lparr>ts_energy = the (fl (split (ts_data ! i) ! 0)),
                  ts_coords = concat (map (atom_coords fl) (take n (drop (n * i) extractedts))),
                  ts_min1 = nat (the (it (split (ts_data ! i) ! 3)) - 1),
                  ts_min2 = nat (the (it (split (ts_data ! i) ! 4)) - 1)\<rparr>)
          [0..<length ts_data]"
  have p2: "read_ts fl it n ts_data extractedts (commit s1) =
      Inr ((commit s1)\<lparr>session := session (commit s1) @ map Add_TransitionState ts\<rparr>)"
    unfolding ts_def map_map comp_def
    by (rule read_ts_ok [OF ld' lines bnd coords_ok_line_ok [OF co]])
  define s where "s = commit ((commit s1)\<lparr>session := session (commit s1) @ map Add_TransitionState ts\<rparr>)"
  have run: "run fl it n min_data extractedmin ts_data extractedts = Inr s"
    by (simp add: run_def r p2 s_def)
  have sess: "session s = session s1 @ Commit # map Add_TransitionState ts @ [Commit]"
    by (simp add: s_def commit_def)
  have s1s: "session s1 = map Add_Minimum [0..<length min_data]"
    using phase1_Inr [OF r] by simp
  have ats: "added_ts (session s) = ts"
    by (simp add: sess s1s log_simps)
  have "\<forall>i<length ts_data. ts ! i =
          \<lparr>ts_energy = the (fl (split (ts_data ! i) ! 0)),
           ts_coords = block fl n extractedts i,
           ts_min1 = nat (the (it (split (ts_data ! i) ! 3)) - 1),
           ts_min2 = nat (the (it (split (ts_data ! i) ! 4)) - 1)\<rparr>"
    using coords_ok_block [OF co] by (simp add: ts_def)
  moreover have "length ts = length ts_data"
    by (simp add: ts_def)
  ultimately show ?thesis
    using run ats by auto
qed

theorem ts_count_witness:
  "valid_minima float_dec 1 [''-10.5 1.0 1 0 0 0'', ''-9.8 1.0 1 0 0 0''] [''0 0 0'', ''1 1 1''] \<and>
   valid_ts float_dec int_dec 1 2 [''-9.0 1.0 1 1 2 0 0 0'', ''-8.5 2.0 1 2 2 0 0 0'']
     [''0.5 0.5 0.5'', ''2 2 2''] \<and>
   (\<exists>s. run float_dec int_dec 1 [''-10.5 1.0 1 0 0 0'', ''-9.8 1.0 1 0 0 0''] [''0 0 0'', ''1 1 1'']
           [''-9.0 1.0 1 1 2 0 0 0'', ''-8.5 2.0 1 2 2 0 0 0''] [''0.5 0.5 0.5'', ''2 2 2''] = Inr s \<and>
        length (added_ts (session s)) = 2)"
proof -
  define md where "md = [''-10.5 1.0 1 0 0 0'', ''-9.8 1.0 1 0 0 0'']"
  define mc where "mc = [''0 0 0'', ''1 1 1'']"
  define td where "td = [''-9.0 1.0 1 1 2 0 0 0'', ''-8.5 2.0 1 2 2 0 0 0'']"
  define tc where "tc = [''0.5 0.5 0.5'', ''2 2 2'']"
  have v1: "valid_minima float_dec 1 md mc"
    by (simp add: md_def mc_def valid_defs split_def is_space_def dec_defs del: not_None_eq)
  have len: "length md = 2" "length td = 2"
    by (simp_all add: md_def td_def)
  have v2: "valid_ts float_dec int_dec 1 (length md) td tc"
    unfolding len
    by (simp add: td_def tc_def valid_defs split_def is_space_def dec_defs del: not_None_eq)
  from ts_count [OF v1 v2] obtain s where
    "run float_dec int_dec 1 md mc td tc = Inr s" "length (added_ts (session s)) = length td"
    by blast
  then show ?thesis
    using v1 v2 unfolding len unfolding md_def mc_def td_def tc_def by blast
qed

text \<open>
  C4. A run that completes has made exactly two commits: its calls on the session are the
  adds of all minima, a commit, the adds of all transition states, and a commit. A run that
  stops at an exception has made at most one commit. In either case no TransitionState is
  added before the first commit.
\<close>

theorem two_commits:
  "(\<forall>s. run fl it n min_data extractedmin ts_data extractedts = Inr s \<longrightarrow>
      commits (session s) = 2 \<and>
      (\<exists>ts. length ts = length ts_data \<and>
         session s = map Add_Minimum [0..<length min_data] @ Commit #
                     map Add_TransitionState ts @ [Commit])) \<and>
   (\<forall>e s. run fl it n min_data extractedmin ts_data extractedts = Inl (e, s) \<longrightarrow>
      commits (session s) \<le> 1 \<and>
      added_ts (takeWhile (\<lambda>c. c \<noteq> Commit) (session s)) = [])"
proof (intro conjI allI impI)
  fix s assume r: "run fl it n min_data extractedmin ts_data extractedts = Inr s"
  from run_Inr [OF r] obtain s1 ts where
    s: "s = s1\<lparr>session := map Add_Minimum [0..<length min_data] @ Commit # map Add_TransitionState ts @ [Commit]\<rparr>"
    and len: "length ts = length ts_data"
    by blast
  show "commits (session s) = 2"
    by (simp add: s log_simps)
  show "\<exists>ts. length ts = length ts_data \<and>
         session s = map Add_Minimum [0..<length min_data] @ Commit #
                     map Add_TransitionState ts @ [Commit]"
    using len by (auto simp: s)
next
  fix e s assume r: "run fl it n min_data extractedmin ts_data extractedts = Inl (e, s)"
  from run_Inl [OF r]
  have "(session s = map Add_Minimum [0..<length (objects s)]) \<or>
     (\<exists>ts. session s = map Add_Minimum [0..<length min_data] @ Commit # map Add_TransitionState ts)"
  proof
    assume "read_minima fl n min_data extractedmin init = Inl (e, s)"
    then show ?thesis using phase1_Inl by blast
  next
    assume "\<exists>s1 ts. read_minima fl n min_data extractedmin init = Inr s1 \<and>
        read_ts fl it n ts_data extractedts (commit s1) = Inl (e, s) \<and>
        s = s1\<lparr>session := map Add_Minimum [0..<length min_data] @ Commit # map Add_TransitionState ts\<rparr> \<and>
        loaded s1 \<and> length (objects s1) = length min_data \<and> length ts < length ts_data \<and>
        n * length ts \<le> length extractedts \<and>
        (\<forall>t \<in> set ts. ts_min1 t \<in> ran (minima s1) \<and> ts_min2 t \<in> ran (minima s1))"
    then obtain s1 ts where
      "s = s1\<lparr>session := map Add_Minimum [0..<length min_data] @ Commit # map Add_TransitionState ts\<rparr>"
      by blast
    then show ?thesis by auto
  qed
  then show "commits (session s) \<le> 1"
    by (auto simp: log_simps)
  from \<open>(session s = map Add_Minimum [0..<length (objects s)]) \<or>
     (\<exists>ts. session s = map Add_Minimum [0..<length min_data] @ Commit # map Add_TransitionState ts)\<close>
  show "added_ts (takeWhile (\<lambda>c. c \<noteq> Commit) (session s)) = []"
    by (auto simp: log_simps takeWhile_no_commit)
qed

theorem two_commits_witness:
  "\<exists>s. run float_dec int_dec 1 [''-10.5 1.0 1 0 0 0'', ''-9.8 1.0 1 0 0 0''] [''0 0 0'', ''1 1 1'']
           [''-9.0 1.0 1 1 2 0 0 0''] [''0.5 0.5 0.5''] = Inr s \<and>
        commits (session s) = 2 \<and>
        session s = [Add_Minimum 0, Add_Minimum 1, Commit,
                     Add_TransitionState \<lparr>ts_energy = - 9, ts_coords = [1 / 2, 1 / 2, 1 / 2],
                                           ts_min1 = 0, ts_min2 = 1\<rparr>,
                     Commit]"
proof -
  have r: "run float_dec int_dec 1 [''-10.5 1.0 1 0 0 0'', ''-9.8 1.0 1 0 0 0''] [''0 0 0'', ''1 1 1'']
           [''-9.0 1.0 1 1 2 0 0 0''] [''0.5 0.5 0.5''] =
     Inr \<lparr>objects = [\<lparr>m_energy = - 21 / 2, m_coords = [0, 0, 0]\<rparr>,
                      \<lparr>m_energy = - 49 / 5, m_coords = [1, 1, 1]\<rparr>],
          minima = [1 \<mapsto> 0, 2 \<mapsto> 1], mini = 3,
          session = [Add_Minimum 0, Add_Minimum 1, Commit,
                     Add_TransitionState \<lparr>ts_energy = - 9, ts_coords = [1 / 2, 1 / 2, 1 / 2],
                                           ts_min1 = 0, ts_min2 = 1\<rparr>,
                     Commit]\<rparr>"
    by (simp add: eval_defs dec_defs)
  from two_commits [of float_dec int_dec 1 "[''-10.5 1.0 1 0 0 0'', ''-9.8 1.0 1 0 0 0'']"
      "[''0 0 0'', ''1 1 1'']" "[''-9.0 1.0 1 1 2 0 0 0'']" "[''0.5 0.5 0.5'']"] r
  show ?thesis by simp
qed

text \<open>
  C5. Building a TransitionState from a line of \<^verbatim>\<open>ts.data\<close> with eight fields, whose
  energy and two ordinals convert, raises \<^verbatim>\<open>KeyError\<close> (a \<^verbatim>\<open>LookupError\<close>) whenever
  the source ordinal or the destination ordinal is not a key of the index; the key reported
  is one of the two ordinals and is absent from the index.
\<close>

theorem unknown_ordinal_KeyError:
  assumes "length (split line) = 8"
    and "fl (split line ! 0) = Some e"
    and "it (split line ! 3) = Some a"
    and "it (split line ! 4) = Some b"
    and "index a = None \<or> index b = None"
  shows "\<exists>k. make_ts fl it index coords (split line) = Inl (KeyError k) \<and>
     is_LookupError (KeyError k) \<and> (k = a \<or> k = b) \<and> index k = None"
  using assms by (auto simp: make_ts_eq build_ts_def split: option.splits)

theorem unknown_ordinal_KeyError_witness:
  "length (split ''-9.0 1.0 1 1 3 0 0 0'') = 8 \<and>
   float_dec (split ''-9.0 1.0 1 1 3 0 0 0'' ! 0) = Some (- 9) \<and>
   int_dec (split ''-9.0 1.0 1 1 3 0 0 0'' ! 3) = Some 1 \<and>
   int_dec (split ''-9.0 1.0 1 1 3 0 0 0'' ! 4) = Some 3 \<and>
   [1 \<mapsto> 0, 2 \<mapsto> Suc 0] (3 :: int) = None \<and>
   (\<exists>k. make_ts float_dec int_dec [1 \<mapsto> 0, 2 \<mapsto> Suc 0] [] (split ''-9.0 1.0 1 1 3 0 0 0'')
          = Inl (KeyError k) \<and> (k = 1 \<or> k = 3))"
proof -
  have h: "length (split ''-9.0 1.0 1 1 3 0 0 0'') = 8"
    "float_dec (split ''-9.0 1.0 1 1 3 0 0 0'' ! 0) = Some (- 9)"
    "int_dec (split ''-9.0 1.0 1 1 3 0 0 0'' ! 3) = Some 1"
    "int_dec (split ''-9.0 1.0 1 1 3 0 0 0'' ! 4) = Some 3"
    by (simp_all add: split_def is_space_def dec_defs)
  have i: "[1 \<mapsto> 0, 2 \<mapsto> Suc 0] (3 :: int) = None"
    by simp
  from unknown_ordinal_KeyError [where line = "''-9.0 1.0 1 1 3 0 0 0''" and fl = float_dec
      and it = int_dec and e = "- 9" and a = 1 and b = 3
      and index = "[1 \<mapsto> 0, 2 \<mapsto> Suc 0]" and coords = "[]"] h i
  have "\<exists>k. make_ts float_dec int_dec [1 \<mapsto> 0, 2 \<mapsto> Suc 0] [] (split ''-9.0 1.0 1 1 3 0 0 0'')
          = Inl (KeyError k) \<and> (k = 1 \<or> k = 3)"
    by blast
  with h i show ?thesis by blast
qed







text \<open>
  C8, as amended. A call of \<^verbatim>\<open>read_coords\<close> for \<open>n\<close> atoms that returns has consumed
  exactly \<open>n\<close> lines and returns a vector of length \<open>3 * n\<close>, the concatenation of what each
  line supplies. It raises \<^verbatim>\<open>ValueError\<close> if one of the next \<open>n\<close> lines has a token that
  is not numeric or has a number of tokens other than three or one (none, two, four or
  more), or if fewer than \<open>n\<close> lines are left; it returns if there are \<open>n\<close> lines without
  such a defect. A line with a single numeric token is accepted: its value fills the three
  coordinates of the atom.
\<close>

theorem read_coords_contract:
  "(\<forall>coords rest. read_coords fl n fc = Inr (coords, rest) \<longrightarrow>
      n \<le> length fc \<and> rest = drop n fc \<and> length coords = 3 * n \<and>
      coords = concat (map (atom_coords fl) (take n fc))) \<and>
   (length fc < n \<or> (\<exists>l \<in> set (take n fc). \<not> line_ok fl l) \<longrightarrow>
      (\<exists>e. read_coords fl n fc = Inl e \<and> is_ValueError e)) \<and>
   (n \<le> length fc \<and> (\<forall>l \<in> set (take n fc). line_ok fl l) \<longrightarrow>
      (\<exists>coords. read_coords fl n fc = Inr (coords, drop n fc)))"
proof (intro conjI allI impI)
  fix coords rest assume r: "read_coords fl n fc = Inr (coords, rest)"
  note f = read_coords_Inr [OF r]
  from f show "n \<le> length fc" "rest = drop n fc" "length coords = 3 * n"
    by auto
  from f have "read_coords fl n fc = Inr (concat (map (atom_coords fl) (take n fc)), drop n fc)"
    by (intro read_coords_ok) auto
  with r show "coords = concat (map (atom_coords fl) (take n fc))"
    by simp
next
  assume bad: "length fc < n \<or> (\<exists>l \<in> set (take n fc). \<not> line_ok fl l)"
  show "\<exists>e. read_coords fl n fc = Inl e \<and> is_ValueError e"
  proof (cases "read_coords fl n fc")
    case (Inl e)
    then show ?thesis using read_coords_Inl by blast
  next
    case (Inr p)
    obtain c rest where "p = (c, rest)" by (cases p)
    with Inr bad read_coords_Inr [of fl n fc c rest] show ?thesis by auto
  qed
next
  assume "n \<le> length fc \<and> (\<forall>l \<in> set (take n fc). line_ok fl l)"
  then show "\<exists>coords. read_coords fl n fc = Inr (coords, drop n fc)"
    using read_coords_ok [of n fc fl] by blast
qed

theorem read_coords_contract_witness:
  "read_coords float_dec 2 [''1.0 2.0 3.0'', ''4 5 6'', ''7 8 9''] = Inr ([1, 2, 3, 4, 5, 6], [''7 8 9'']) \<and>
   (\<exists>e. read_coords float_dec 2 [''1.0 2.0 3.0'', ''4 5'', ''7 8 9''] = Inl e \<and> is_ValueError e) \<and>
   (\<exists>e. read_coords float_dec 2 [''1.0 2.0 3.0'', ''4 5 x'', ''7 8 9''] = Inl e \<and> is_ValueError e)"
proof -
  have a: "read_coords float_dec 2 [''1.0 2.0 3.0'', ''4 5 6'', ''7 8 9'']
      = Inr ([1, 2, 3, 4, 5, 6], [''7 8 9''])"
    by (simp add: eval_defs dec_defs eval_nat_numeral)
  have b: "length [''1.0 2.0 3.0'', ''4 5'', ''7 8 9''] < 2 \<or>
      (\<exists>l \<in> set (take 2 [''1.0 2.0 3.0'', ''4 5'', ''7 8 9'']). \<not> line_ok float_dec l)"
    by (simp add: line_ok_def split_def is_space_def dec_defs eval_nat_numeral)
  have c: "length [''1.0 2.0 3.0'', ''4 5 x'', ''7 8 9''] < 2 \<or>
      (\<exists>l \<in> set (take 2 [''1.0 2.0 3.0'', ''4 5 x'', ''7 8 9'']). \<not> line_ok float_dec l)"
    by (simp add: line_ok_def split_def is_space_def dec_defs eval_nat_numeral)
  have 1: "\<exists>e. read_coords float_dec 2 [''1.0 2.0 3.0'', ''4 5'', ''7 8 9''] = Inl e \<and> is_ValueError e"
    using read_coords_contract [where fl = float_dec and n = 2
        and fc = "[''1.0 2.0 3.0'', ''4 5'', ''7 8 9'']", THEN conjunct2, THEN conjunct1] b
    by (rule mp)
  have 2: "\<exists>e. read_coords float_dec 2 [''1.0 2.0 3.0'', ''4 5 x'', ''7 8 9''] = Inl e \<and> is_ValueError e"
    using read_coords_contract [where fl = float_dec and n = 2
        and fc = "[''1.0 2.0 3.0'', ''4 5 x'', ''7 8 9'']", THEN conjunct2, THEN conjunct1] c
    by (rule mp)
  show ?thesis
    using a 1 2 by (intro conjI)
qed

text \<open>
  C8 as stated fails for a line with one token: numpy broadcasts the single value to the
  three cells of the slice, and the call returns.
\<close>

theorem single_token_counterexample:
  "length (split ''5.0'') = 1 \<and> read_coords float_dec 1 [''5.0''] = Inr ([5, 5, 5], [])"
  by (simp add: eval_defs dec_defs eval_nat_numeral)

text \<open>
  C9, as amended. For \<open>n > 0\<close> atoms: if \<^verbatim>\<open>extractedmin\<close> has fewer than \<open>n\<close> lines per
  line of \<^verbatim>\<open>min.data\<close>, the run stops with a \<^verbatim>\<open>ValueError\<close> in phase 1, before any commit,
  having added no more minima than the coordinate file holds complete blocks for, so no
  record after the one whose block runs out is processed. If the lines before the point where
  the file runs out are well-formed, it stops exactly at the record whose block runs out
  (record \<open>length extractedmin div n\<close>, counted from 0), after adding the records before it.
  The same holds for \<^verbatim>\<open>extractedts\<close> and \<^verbatim>\<open>ts.data\<close> once phase 1 has completed (there
  an earlier line may also stop the run with a \<^verbatim>\<open>KeyError\<close>). The exception at the end of
  the file is \<open>ValueError_broadcast 0 3\<close>, a \<^verbatim>\<open>ValueError\<close> like every parse failure: the
  script does not detect the end of the file, and \<^verbatim>\<open>read_coords\<close> raises the very same
  exception for a blank line in a file that has not run out.
\<close>

theorem coordinates_run_out:
  assumes "0 < n"
  shows
    "(length extractedmin < n * length min_data \<longrightarrow>
        (\<exists>e s. run fl it n min_data extractedmin ts_data extractedts = Inl (e, s) \<and> is_ValueError e \<and>
           commits (session s) = 0 \<and> added_ts (session s) = [] \<and>
           n * length (added_minima (session s)) \<le> length extractedmin) \<and>
        ((\<forall>l \<in> set extractedmin. line_ok fl l) \<and>
         (\<forall>l \<in> set (take (length extractedmin div n) min_data). min_line_ok fl l) \<longrightarrow>
           (\<exists>s. run fl it n min_data extractedmin ts_data extractedts = Inl (ValueError_broadcast 0 3, s) \<and>
              session s = map Add_Minimum [0..<length extractedmin div n]))) \<and>
     ((\<exists>s1. read_minima fl n min_data extractedmin init = Inr s1) \<and>
      length extractedts < n * length ts_data \<longrightarrow>
        (\<exists>e s. run fl it n min_data extractedmin ts_data extractedts = Inl (e, s) \<and>
           commits (session s) = 1 \<and> n * length (added_ts (session s)) \<le> length extractedts) \<and>
        ((\<forall>l \<in> set extractedts. line_ok fl l) \<and>
         (\<forall>l \<in> set (take (length extractedts div n) ts_data). ts_line_ok fl it (length min_data) l) \<longrightarrow>
           (\<exists>s. run fl it n min_data extractedmin ts_data extractedts = Inl (ValueError_broadcast 0 3, s) \<and>
              length (added_ts (session s)) = length extractedts div n \<and> commits (session s) = 1))) \<and>
     is_ValueError (ValueError_broadcast 0 3) \<and>
     (\<forall>pre b rest. length pre < n \<and> (\<forall>l \<in> set pre. line_ok fl l) \<and> split b = [] \<longrightarrow>
        read_coords fl n (pre @ b # rest) = Inl (ValueError_broadcast 0 3))"
proof (intro conjI impI allI)
  assume a: "length extractedmin < n * length min_data"
  show "\<exists>e s. run fl it n min_data extractedmin ts_data extractedts = Inl (e, s) \<and> is_ValueError e \<and>
           commits (session s) = 0 \<and> added_ts (session s) = [] \<and>
           n * length (added_minima (session s)) \<le> length extractedmin"
    by (rule phase1_short [OF assms a])
  assume "(\<forall>l \<in> set extractedmin. line_ok fl l) \<and>
         (\<forall>l \<in> set (take (length extractedmin div n) min_data). min_line_ok fl l)"
  then show "\<exists>s. run fl it n min_data extractedmin ts_data extractedts = Inl (ValueError_broadcast 0 3, s) \<and>
              session s = map Add_Minimum [0..<length extractedmin div n]"
    using phase1_eof [OF assms a] by blast
next
  assume "(\<exists>s1. read_minima fl n min_data extractedmin init = Inr s1) \<and>
      length extractedts < n * length ts_data"
  then obtain s1 where r: "read_minima fl n min_data extractedmin init = Inr s1"
    and a: "length extractedts < n * length ts_data"
    by blast
  show "\<exists>e s. run fl it n min_data extractedmin ts_data extractedts = Inl (e, s) \<and>
           commits (session s) = 1 \<and> n * length (added_ts (session s)) \<le> length extractedts"
    by (rule phase2_short [OF assms r a])
  assume "(\<forall>l \<in> set extractedts. line_ok fl l) \<and>
         (\<forall>l \<in> set (take (length extractedts div n) ts_data). ts_line_ok fl it (length min_data) l)"
  then show "\<exists>s. run fl it n min_data extractedmin ts_data extractedts = Inl (ValueError_broadcast 0 3, s) \<and>
              length (added_ts (session s)) = length extractedts div n \<and> commits (session s) = 1"
    using phase2_eof [OF assms r a] by blast
next
  show "is_ValueError (ValueError_broadcast 0 3)"
    by simp
next
  fix pre b rest
  assume "length pre < n \<and> (\<forall>l \<in> set pre. line_ok fl l) \<and> split b = []"
  then show "read_coords fl n (pre @ b # rest) = Inl (ValueError_broadcast 0 3)"
    using read_coords_blank [of pre n fl b rest] by blast
qed

theorem coordinates_run_out_witness:
  "length [''0.0 0.0 0.0'', ''1.0 0.0 0.0'', ''0.0 1.0 0.0'']
     < 2 * length [''-10.5 1.0 1 0 0 0'', ''-9.8 1.0 1 0 0 0''] \<and>
   (\<exists>s. run float_dec int_dec 2 [''-10.5 1.0 1 0 0 0'', ''-9.8 1.0 1 0 0 0'']
          [''0.0 0.0 0.0'', ''1.0 0.0 0.0'', ''0.0 1.0 0.0''] [] []
        = Inl (ValueError_broadcast 0 3, s) \<and> session s = [Add_Minimum 0]) \<and>
   (\<exists>s1. read_minima float_dec 1 [''-10.5 1.0 1 0 0 0''] [''0 0 0''] init = Inr s1) \<and>
   length [''0.5 0.5 0.5''] < 1 * length [''-9.0 1.0 1 1 1 0 0 0'', ''-8.0 1.0 1 1 1 0 0 0''] \<and>
   (\<exists>s. run float_dec int_dec 1 [''-10.5 1.0 1 0 0 0''] [''0 0 0'']
          [''-9.0 1.0 1 1 1 0 0 0'', ''-8.0 1.0 1 1 1 0 0 0''] [''0.5 0.5 0.5'']
        = Inl (ValueError_broadcast 0 3, s) \<and> length (added_ts (session s)) = 1 \<and>
          commits (session s) = 1) \<and>
   split '' '' = [] \<and>
   read_coords float_dec 2 ([''0 0 0''] @ '' '' # [''1 1 1'', ''2 2 2''])
     = Inl (ValueError_broadcast 0 3)"
proof -
  define md where "md = [''-10.5 1.0 1 0 0 0'', ''-9.8 1.0 1 0 0 0'']"
  define mc where "mc = [''0.0 0.0 0.0'', ''1.0 0.0 0.0'', ''0.0 1.0 0.0'']"
  have pos: "(0::nat) < 2" "(0::nat) < 1"
    by simp_all
  have a: "length mc < 2 * length md"
    by (simp add: md_def mc_def)
  have k: "length mc div 2 = 1"
    by (simp add: mc_def)
  have c: "(\<forall>l \<in> set mc. line_ok float_dec l) \<and>
      (\<forall>l \<in> set (take (length mc div 2) md). min_line_ok float_dec l)"
    unfolding k
    by (simp add: md_def mc_def line_ok_def min_line_ok_def split_def is_space_def dec_defs
          del: not_None_eq)
  have "\<exists>s. run float_dec int_dec 2 md mc [] [] = Inl (ValueError_broadcast 0 3, s) \<and>
      session s = map Add_Minimum [0..<length mc div 2]"
    by (rule coordinates_run_out [where n = 2 and fl = float_dec and it = int_dec and min_data = md
        and extractedmin = mc and ts_data = "[]" and extractedts = "[]",
        OF pos(1), THEN conjunct1, THEN mp, OF a, THEN conjunct2, THEN mp, OF c])
  then have 1: "\<exists>s. run float_dec int_dec 2 md mc [] [] = Inl (ValueError_broadcast 0 3, s) \<and>
      session s = [Add_Minimum 0]"
    unfolding k by simp
  define md' where "md' = [''-10.5 1.0 1 0 0 0'']"
  define mc' where "mc' = [''0 0 0'']"
  define td where "td = [''-9.0 1.0 1 1 1 0 0 0'', ''-8.0 1.0 1 1 1 0 0 0'']"
  define tc where "tc = [''0.5 0.5 0.5'']"
  have p1: "\<exists>s1. read_minima float_dec 1 md' mc' init = Inr s1"
    by (simp add: md'_def mc'_def eval_defs dec_defs)
  have a': "length tc < 1 * length td"
    by (simp add: td_def tc_def)
  have k': "length tc div 1 = 1" "length md' = 1"
    by (simp_all add: tc_def md'_def)
  have c': "(\<forall>l \<in> set tc. line_ok float_dec l) \<and>
      (\<forall>l \<in> set (take (length tc div 1) td). ts_line_ok float_dec int_dec (length md') l)"
    unfolding k'
    by (simp add: td_def tc_def line_ok_def ts_line_ok_def ordinal_ok_def split_def is_space_def
          dec_defs del: not_None_eq)
  have "\<exists>s. run float_dec int_dec 1 md' mc' td tc = Inl (ValueError_broadcast 0 3, s) \<and>
      length (added_ts (session s)) = length tc div 1 \<and> commits (session s) = 1"
    by (rule coordinates_run_out [where n = 1 and fl = float_dec and it = int_dec and min_data = md'
        and extractedmin = mc' and ts_data = td and extractedts = tc,
        OF pos(2), THEN conjunct2, THEN conjunct1, THEN mp, OF conjI [OF p1 a'], THEN conjunct2,
        THEN mp, OF c'])
  then have 2: "\<exists>s. run float_dec int_dec 1 md' mc' td tc = Inl (ValueError_broadcast 0 3, s) \<and>
      length (added_ts (session s)) = 1 \<and> commits (session s) = 1"
    unfolding k' .
  have sp: "split '' '' = []"
    by (simp add: split_def is_space_def)
  have bl: "length [''0 0 0''] < 2 \<and> (\<forall>l \<in> set [''0 0 0'']. line_ok float_dec l) \<and>
      split '' '' = []"
    by (simp add: line_ok_def split_def is_space_def dec_defs del: not_None_eq)
  have 3: "read_coords float_dec 2 ([''0 0 0''] @ '' '' # [''1 1 1'', ''2 2 2''])
      = Inl (ValueError_broadcast 0 3)"
    by (rule coordinates_run_out [where n = 2 and fl = float_dec, OF pos(1), THEN conjunct2,
        THEN conjunct2, THEN conjunct2, THEN spec, THEN spec, THEN spec, THEN mp, OF bl])
  show ?thesis
    using a 1 p1 a' 2 sp 3 unfolding md_def mc_def md'_def mc'_def td_def tc_def by (intro conjI)
qed

text \<open>
  C9 as stated fails in two ways. A coordinate file that is too short and whose first line
  is malformed stops the run at the first record, with the conversion error of that line,
  not at the record whose block runs out. And the exception a short, well-formed file ends
  in is not one of its own kind: a file that is long enough but holds a blank line stops the
  run with the same \<^verbatim>\<open>ValueError\<close>.
\<close>

theorem short_file_counterexample:
  "length [''x 0 0''] < 1 * length [''-10.5 1.0 1 0 0 0'', ''-9.8 1.0 1 0 0 0''] \<and>
   error_of (run float_dec int_dec 1 [''-10.5 1.0 1 0 0 0'', ''-9.8 1.0 1 0 0 0''] [''x 0 0''] [] [])
     = Some (ValueError_float ''x'') \<and>
   session (state_of (run float_dec int_dec 1 [''-10.5 1.0 1 0 0 0'', ''-9.8 1.0 1 0 0 0'']
      [''x 0 0''] [] [])) = [] \<and>
   length [''0 0 0''] < 1 * length [''-10.5 1.0 1 0 0 0'', ''-9.8 1.0 1 0 0 0''] \<and>
   error_of (run float_dec int_dec 1 [''-10.5 1.0 1 0 0 0'', ''-9.8 1.0 1 0 0 0''] [''0 0 0''] [] [])
     = Some (ValueError_broadcast 0 3) \<and>
   \<not> length [''0 0 0'', '' '', ''1 1 1''] < 1 * length [''-10.5 1.0 1 0 0 0'', ''-9.8 1.0 1 0 0 0''] \<and>
   error_of (run float_dec int_dec 1 [''-10.5 1.0 1 0 0 0'', ''-9.8 1.0 1 0 0 0'']
      [''0 0 0'', '' '', ''1 1 1''] [] [])
     = Some (ValueError_broadcast 0 3) \<and>
   is_ValueError (ValueError_broadcast 0 3)"
  by (simp add: eval_defs dec_defs state_of_def error_of_def)

text \<open>
  C10. For a line of \<^verbatim>\<open>min.data\<close> with exactly six fields, the outcome of parsing and
  construction is determined by the first field alone: if it converts, the Minimum is
  built with that value as its energy, whatever the other five fields are.
\<close>

theorem minimum_only_energy_converted:
  assumes "length (split line) = 6"
  shows "make_minimum fl coords (split line) =
     (case fl (split line ! 0) of
        None \<Rightarrow> Inl (ValueError_float (split line ! 0))
      | Some e \<Rightarrow> Inr \<lparr>m_energy = e, m_coords = coords\<rparr>)"
  using assms by (simp add: make_minimum_eq)

theorem minimum_only_energy_converted_witness:
  "length (split ''-10.5 high C2v x y z'') = 6 \<and>
   float_dec ''high'' = None \<and> float_dec ''C2v'' = None \<and> float_dec ''x'' = None \<and>
   make_minimum float_dec [1, 2, 3] (split ''-10.5 high C2v x y z'') =
     Inr \<lparr>m_energy = - 21 / 2, m_coords = [1, 2, 3]\<rparr>"
proof -
  have h: "length (split ''-10.5 high C2v x y z'') = 6"
    by (simp add: split_def is_space_def)
  have e: "float_dec (split ''-10.5 high C2v x y z'' ! 0) = Some (- 21 / 2)"
    by (simp add: split_def is_space_def dec_defs)
  have n: "float_dec ''high'' = None" "float_dec ''C2v'' = None" "float_dec ''x'' = None"
    by (simp_all add: dec_defs)
  from minimum_only_energy_converted [OF h, of float_dec "[1, 2, 3]"] h n
  show ?thesis by (simp add: e)
qed

end
